theory Spec2Isabelle
  imports Main "HOL-Library.Word" "HOL-Library.Sublist"
begin

section \<open>RSocketTcpClient: the TCP transport client and its duplex connection\<close>

text \<open>
  A shallow embedding of \<^verbatim>\<open>packages/rsocket-tcp-client/src/RSocketTcpClient.js\<close>.
  The mutable object \<^verbatim>\<open>TcpDuplexConnection\<close> is a record that every method takes and
  returns. Calls made on collaborators that the file does not define (the subscribers in
  \<^verbatim>\<open>_receivers\<close>, the subscriptions in \<^verbatim>\<open>_senders\<close>, the socket, the deferred
  \<^verbatim>\<open>_close\<close>, the subscriber of the connect future) are appended, in program order, to
  a log of calls. A JavaScript \<^verbatim>\<open>Set\<close> iterates in insertion order, so the two sets
  are lists without duplicates; objects compared by identity are natural numbers.
  A leading underscore is not allowed in a name here, so \<^verbatim>\<open>_handleData\<close> is
  \<open>handleData\<close>, and so on.

  The callbacks of subscribers and the methods of subscriptions are taken to return
  without throwing and without calling back into the connection, with one exception:
  a producer may signal from inside \<^verbatim>\<open>request\<close> (see \<open>send_onSubscribe\<close>).
\<close>

subsection \<open>Data\<close>

type_synonym Buffer = "8 word list"

datatype error = Error string

text \<open>The names of the socket's events, and the functions the file attaches to them.\<close>

datatype event_name = Ev_close | Ev_connect | Ev_data | Ev_end | Ev_error

datatype listener =
    L_close | L_handleData | L_handleEnd | L_handleError
  | L_connect_onError | L_connect_onComplete

text \<open>What the socket emits: the event with its argument.\<close>

datatype socket_event =
    Emit_close | Emit_connect | Emit_data Buffer | Emit_end | Emit_error error

fun event_name_of :: "socket_event \<Rightarrow> event_name" where
  "event_name_of Emit_close = Ev_close"
| "event_name_of Emit_connect = Ev_connect"
| "event_name_of (Emit_data chunk) = Ev_data"
| "event_name_of Emit_end = Ev_end"
| "event_name_of (Emit_error e) = Ev_error"

text \<open>
  The part of \<^verbatim>\<open>net.Socket\<close> the file relies on: the attached listeners (event name,
  whether attached with \<^verbatim>\<open>once\<close>, function) and whether \<^verbatim>\<open>end()\<close> was called.
\<close>

record net_Socket =
  listeners :: "(event_name \<times> bool \<times> listener) list"
  ended :: bool

text \<open>The calls made on collaborators, as they appear in the log.\<close>

datatype 'f call =
    Subscriber_onSubscribe nat
  | Subscriber_onNext nat 'f
  | Subscriber_onError nat error
  | Subscriber_onComplete nat
  | Subscription_request nat nat
  | Subscription_cancel nat
  | Deferred_resolve
  | Socket_on event_name listener
  | Socket_once event_name listener
  | Socket_write Buffer
  | Socket_removeAllListeners
  | Socket_end
  | Net_connect
  | Future_onSubscribe
  | Future_onError error
  | Future_onComplete

record ('f, 'e, 'o) TcpDuplexConnection =
  active :: bool
  buffer :: Buffer
  close_resolved :: bool
  encoders :: 'e
  options :: 'o
  receivers :: "nat list"
  senders :: "nat list"
  socket :: net_Socket
  subscription :: "nat \<Rightarrow> nat option"
  log :: "'f call list"

text \<open>
  The field \<open>close_resolved\<close> is the state of the deferred \<^verbatim>\<open>_close\<close>, whose promise
  \<^verbatim>\<open>onClose()\<close> returns. The field \<open>subscription\<close> holds, for every call of
  \<^verbatim>\<open>send\<close> (numbered), the local variable \<^verbatim>\<open>subscription\<close> of that call, which its
  callbacks share: \<open>None\<close> is \<^verbatim>\<open>undefined\<close>.
\<close>

text \<open>
  The imported functions the file calls. \<^verbatim>\<open>deserializeFrames\<close> and
  \<^verbatim>\<open>serializeFrameWithLength\<close> come from \<^verbatim>\<open>rsocket-core\<close> and may throw;
  \<open>socket_write\<close> says whether \<^verbatim>\<open>socket.write(buffer)\<close> throws on the given socket.
  They are parameters of the model.
\<close>

record ('f, 'e) collaborators =
  deserializeFrames :: "Buffer \<Rightarrow> 'e \<Rightarrow> error + ('f list \<times> Buffer)"
  serializeFrameWithLength :: "'f \<Rightarrow> 'e \<Rightarrow> error + Buffer"
  socket_write :: "net_Socket \<Rightarrow> Buffer \<Rightarrow> error option"

subsection \<open>Sets in insertion order\<close>

definition set_add :: "'a \<Rightarrow> 'a list \<Rightarrow> 'a list" where
  "set_add x xs = (if x \<in> set xs then xs else xs @ [x])"

definition set_delete :: "'a \<Rightarrow> 'a list \<Rightarrow> 'a list" where
  "set_delete x xs = removeAll x xs"

subsection \<open>The socket\<close>

definition removeAllListeners :: "net_Socket \<Rightarrow> net_Socket" where
  "removeAllListeners s = s\<lparr>listeners := []\<rparr>"

definition socket_end :: "net_Socket \<Rightarrow> net_Socket" where
  "socket_end s = s\<lparr>ended := True\<rparr>"

definition socket_on :: "event_name \<Rightarrow> listener \<Rightarrow> net_Socket \<Rightarrow> net_Socket" where
  "socket_on n l s = s\<lparr>listeners := listeners s @ [(n, False, l)]\<rparr>"

definition socket_once :: "event_name \<Rightarrow> listener \<Rightarrow> net_Socket \<Rightarrow> net_Socket" where
  "socket_once n l s = s\<lparr>listeners := listeners s @ [(n, True, l)]\<rparr>"

text \<open>
  Emitting an event takes the listeners attached under its name at that moment, in the
  order of attachment; the ones attached with \<^verbatim>\<open>once\<close> are detached before they run.
\<close>

definition listeners_for :: "event_name \<Rightarrow> net_Socket \<Rightarrow> listener list" where
  "listeners_for n s = map (\<lambda>(m, once, l). l) (filter (\<lambda>(m, once, l). m = n) (listeners s))"

definition drop_once :: "event_name \<Rightarrow> net_Socket \<Rightarrow> net_Socket" where
  "drop_once n s = s\<lparr>listeners := filter (\<lambda>(m, once, l). \<not> (m = n \<and> once)) (listeners s)\<rparr>"

subsection \<open>TcpDuplexConnection\<close>

definition "constructor" ::
  "'o \<Rightarrow> 'e \<Rightarrow> net_Socket \<Rightarrow> ('f, 'e, 'o) TcpDuplexConnection" where
  "constructor opts encs sock =
     \<lparr> active = True,
       buffer = [],
       close_resolved = False,
       encoders = encs,
       options = opts,
       receivers = [],
       senders = [],
       socket = socket_on Ev_error L_handleError
                  (socket_on Ev_end L_handleEnd
                    (socket_on Ev_data L_handleData
                      (socket_on Ev_close L_close sock))),
       subscription = (\<lambda>p. None),
       log = [Socket_on Ev_close L_close, Socket_on Ev_data L_handleData,
              Socket_on Ev_end L_handleEnd, Socket_on Ev_error L_handleError] \<rparr>"

definition called ::
  "'f call list \<Rightarrow> ('f, 'e, 'o) TcpDuplexConnection \<Rightarrow> ('f, 'e, 'o) TcpDuplexConnection" where
  "called cs c = c\<lparr>log := log c @ cs\<rparr>"

definition close :: "('f, 'e, 'o) TcpDuplexConnection \<Rightarrow> ('f, 'e, 'o) TcpDuplexConnection" where
  "close c =
     (if \<not> active c then c
      else
        let c1 = c\<lparr>active := False\<rparr>;
            c2 = called [Deferred_resolve] (c1\<lparr>close_resolved := True\<rparr>);
            c3 = called (map Subscriber_onComplete (receivers c2)) c2;
            c4 = c3\<lparr>receivers := []\<rparr>;
            c5 = called (map Subscription_cancel (senders c4)) c4;
            c6 = c5\<lparr>senders := []\<rparr>;
            c7 = called [Socket_removeAllListeners] (c6\<lparr>socket := removeAllListeners (socket c6)\<rparr>)
        in called [Socket_end] (c7\<lparr>socket := socket_end (socket c7)\<rparr>))"

definition handleError ::
  "error \<Rightarrow> ('f, 'e, 'o) TcpDuplexConnection \<Rightarrow> ('f, 'e, 'o) TcpDuplexConnection" where
  "handleError err c = close (called (map (\<lambda>r. Subscriber_onError r err) (receivers c)) c)"

definition handleEnd :: "('f, 'e, 'o) TcpDuplexConnection \<Rightarrow> ('f, 'e, 'o) TcpDuplexConnection" where
  "handleEnd c = handleError (Error ''RSocketTcpClient: Socket closed unexpectedly.'') c"

text \<open>
  \<^verbatim>\<open>_readFrames\<close> returns the frames and leaves the remainder in \<^verbatim>\<open>_buffer\<close>; when
  \<^verbatim>\<open>deserializeFrames\<close> throws, the assignment is not reached and the connection is as
  it was.
\<close>

definition readFrames ::
  "('f, 'e) collaborators \<Rightarrow> Buffer \<Rightarrow> ('f, 'e, 'o) TcpDuplexConnection
     \<Rightarrow> error + ('f list \<times> ('f, 'e, 'o) TcpDuplexConnection)" where
  "readFrames env chunk c =
     (case deserializeFrames env (buffer c @ chunk) (encoders c) of
        Inl err \<Rightarrow> Inl err
      | Inr (frames, remaining) \<Rightarrow> Inr (frames, c\<lparr>buffer := remaining\<rparr>))"

text \<open>The calls of the two nested \<^verbatim>\<open>forEach\<close>: frame by frame, each to every receiver.\<close>

definition deliver :: "nat list \<Rightarrow> 'f list \<Rightarrow> 'f call list" where
  "deliver rs frames = concat (map (\<lambda>frame. map (\<lambda>r. Subscriber_onNext r frame) rs) frames)"

definition handleData ::
  "('f, 'e) collaborators \<Rightarrow> Buffer \<Rightarrow> ('f, 'e, 'o) TcpDuplexConnection
     \<Rightarrow> ('f, 'e, 'o) TcpDuplexConnection" where
  "handleData env chunk c =
     (case readFrames env chunk c of
        Inr (frames, c') \<Rightarrow> called (deliver (receivers c') frames) c'
      | Inl err \<Rightarrow> close (handleError err c))"

text \<open>
  \<^verbatim>\<open>_writeFrame\<close>: the call of \<^verbatim>\<open>socket.write\<close> is logged when it is made, whether or
  not it then throws.
\<close>

definition writeFrame ::
  "('f, 'e) collaborators \<Rightarrow> 'f \<Rightarrow> ('f, 'e, 'o) TcpDuplexConnection
     \<Rightarrow> ('f, 'e, 'o) TcpDuplexConnection" where
  "writeFrame env frame c =
     (case serializeFrameWithLength env frame (encoders c) of
        Inl err \<Rightarrow> handleError err c
      | Inr buf \<Rightarrow>
          (let c' = called [Socket_write buf] c
           in case socket_write env (socket c) buf of
                Some err \<Rightarrow> handleError err c'
              | None \<Rightarrow> c'))"

definition sendOne ::
  "('f, 'e) collaborators \<Rightarrow> 'f \<Rightarrow> ('f, 'e, 'o) TcpDuplexConnection
     \<Rightarrow> ('f, 'e, 'o) TcpDuplexConnection" where
  "sendOne env frame c = writeFrame env frame c"

subsection \<open>send\<close>

text \<open>
  \<^verbatim>\<open>send(frames)\<close> declares the local \<^verbatim>\<open>subscription\<close> (undefined) and subscribes an
  object of four callbacks to the producer. The call is numbered \<open>p\<close>; the producer then
  drives the callbacks. A producer may call \<^verbatim>\<open>onNext\<close>, \<^verbatim>\<open>onComplete\<close> or
  \<^verbatim>\<open>onError\<close> from inside \<^verbatim>\<open>request\<close>, before \<^verbatim>\<open>request\<close> returns (a
  producer of values it already holds does): these are the signals \<open>sync\<close> of
  \<open>send_onSubscribe\<close>, and they run between the two statements around them.
\<close>

datatype 'f signal = Sig_onNext 'f | Sig_onComplete | Sig_onError error

definition MAX_SAFE_INTEGER :: nat where
  "MAX_SAFE_INTEGER = 9007199254740991"

definition send ::
  "nat \<Rightarrow> ('f, 'e, 'o) TcpDuplexConnection \<Rightarrow> ('f, 'e, 'o) TcpDuplexConnection" where
  "send p c = c\<lparr>subscription := (subscription c)(p := None)\<rparr>"

definition send_onComplete ::
  "nat \<Rightarrow> ('f, 'e, 'o) TcpDuplexConnection \<Rightarrow> ('f, 'e, 'o) TcpDuplexConnection" where
  "send_onComplete p c =
     (case subscription c p of
        None \<Rightarrow> c
      | Some sub \<Rightarrow> c\<lparr>senders := set_delete sub (senders c)\<rparr>)"

fun send_signal ::
  "('f, 'e) collaborators \<Rightarrow> nat \<Rightarrow> 'f signal \<Rightarrow> ('f, 'e, 'o) TcpDuplexConnection
     \<Rightarrow> ('f, 'e, 'o) TcpDuplexConnection" where
  "send_signal env p (Sig_onNext frame) c = writeFrame env frame c"
| "send_signal env p Sig_onComplete c = send_onComplete p c"
| "send_signal env p (Sig_onError err) c = handleError err c"

definition send_onSubscribe ::
  "('f, 'e) collaborators \<Rightarrow> nat \<Rightarrow> nat \<Rightarrow> 'f signal list
     \<Rightarrow> ('f, 'e, 'o) TcpDuplexConnection \<Rightarrow> ('f, 'e, 'o) TcpDuplexConnection" where
  "send_onSubscribe env p sub sync c =
     (let c1 = c\<lparr>subscription := (subscription c)(p \<mapsto> sub)\<rparr>;
          c2 = called [Subscription_request sub MAX_SAFE_INTEGER] c1;
          c3 = fold (send_signal env p) sync c2
      in c3\<lparr>senders := set_add sub (senders c3)\<rparr>)"

subsection \<open>receive\<close>

text \<open>
  \<^verbatim>\<open>receive()\<close> returns a Flowable; subscribing \<open>subject\<close> to it hands the subject a
  subscription whose \<^verbatim>\<open>request\<close> adds the subject to \<^verbatim>\<open>_receivers\<close> and whose
  \<^verbatim>\<open>cancel\<close> deletes it.
\<close>

definition receive_subscribe ::
  "nat \<Rightarrow> ('f, 'e, 'o) TcpDuplexConnection \<Rightarrow> ('f, 'e, 'o) TcpDuplexConnection" where
  "receive_subscribe subject c = called [Subscriber_onSubscribe subject] c"

definition receive_request ::
  "nat \<Rightarrow> ('f, 'e, 'o) TcpDuplexConnection \<Rightarrow> ('f, 'e, 'o) TcpDuplexConnection" where
  "receive_request subject c = c\<lparr>receivers := set_add subject (receivers c)\<rparr>"

definition receive_cancel ::
  "nat \<Rightarrow> ('f, 'e, 'o) TcpDuplexConnection \<Rightarrow> ('f, 'e, 'o) TcpDuplexConnection" where
  "receive_cancel subject c = c\<lparr>receivers := set_delete subject (receivers c)\<rparr>"

subsection \<open>Socket events on a connection\<close>

fun run_listener ::
  "('f, 'e) collaborators \<Rightarrow> socket_event \<Rightarrow> listener \<Rightarrow> ('f, 'e, 'o) TcpDuplexConnection
     \<Rightarrow> ('f, 'e, 'o) TcpDuplexConnection" where
  "run_listener env ev L_close c = close c"
| "run_listener env (Emit_data chunk) L_handleData c = handleData env chunk c"
| "run_listener env ev L_handleEnd c = handleEnd c"
| "run_listener env (Emit_error err) L_handleError c = handleError err c"
| "run_listener env ev l c = c"

definition socket_emit ::
  "('f, 'e) collaborators \<Rightarrow> socket_event \<Rightarrow> ('f, 'e, 'o) TcpDuplexConnection
     \<Rightarrow> ('f, 'e, 'o) TcpDuplexConnection" where
  "socket_emit env ev c =
     fold (run_listener env ev) (listeners_for (event_name_of ev) (socket c))
       (c\<lparr>socket := drop_once (event_name_of ev) (socket c)\<rparr>)"

subsection \<open>Everything that can happen to a connection\<close>

datatype 'f action =
    Do_sendOne 'f
  | Do_send nat
  | Producer_onSubscribe nat nat "'f signal list"
  | Producer_signal nat "'f signal"
  | Do_receive_subscribe nat
  | Do_request nat
  | Do_cancel nat
  | Do_close
  | Socket_emits socket_event

fun step ::
  "('f, 'e) collaborators \<Rightarrow> 'f action \<Rightarrow> ('f, 'e, 'o) TcpDuplexConnection
     \<Rightarrow> ('f, 'e, 'o) TcpDuplexConnection" where
  "step env (Do_sendOne frame) c = sendOne env frame c"
| "step env (Do_send p) c = send p c"
| "step env (Producer_onSubscribe p sub sync) c = send_onSubscribe env p sub sync c"
| "step env (Producer_signal p sig) c = send_signal env p sig c"
| "step env (Do_receive_subscribe subject) c = receive_subscribe subject c"
| "step env (Do_request subject) c = receive_request subject c"
| "step env (Do_cancel subject) c = receive_cancel subject c"
| "step env Do_close c = close c"
| "step env (Socket_emits ev) c = socket_emit env ev c"

definition run ::
  "('f, 'e) collaborators \<Rightarrow> 'f action list \<Rightarrow> ('f, 'e, 'o) TcpDuplexConnection
     \<Rightarrow> ('f, 'e, 'o) TcpDuplexConnection" where
  "run env as c = fold (step env) as c"

text \<open>What a subscriber has been handed, read off a log.\<close>

fun frames_seen :: "nat \<Rightarrow> 'f call list \<Rightarrow> 'f list" where
  "frames_seen r [] = []"
| "frames_seen r (Subscriber_onNext r' frame # cs) =
     (if r' = r then frame # frames_seen r cs else frames_seen r cs)"
| "frames_seen r (x # cs) = frames_seen r cs"

subsection \<open>RSocketTcpClient.connect\<close>

text \<open>
  One subscription to the future that \<^verbatim>\<open>connect()\<close> returns: the socket that
  \<^verbatim>\<open>net.connect\<close> made, what the future's subscriber was last told, and the log.
  Once the future is resolved the socket belongs to the connection, and \<open>c_socket\<close> is
  the socket as it was handed over.
\<close>

datatype ('f, 'e, 'o) outcome =
    Pending
  | Failed error
  | Resolved "('f, 'e, 'o) TcpDuplexConnection"

record ('f, 'e, 'o) connecting =
  c_options :: 'o
  c_encoders :: 'e
  c_socket :: net_Socket
  future :: "('f, 'e, 'o) outcome"
  c_log :: "'f call list"

definition connect :: "'o \<Rightarrow> 'e \<Rightarrow> ('f, 'e, 'o) connecting" where
  "connect opts encs =
     \<lparr> c_options = opts,
       c_encoders = encs,
       c_socket = socket_once Ev_connect L_connect_onComplete
                    (socket_once Ev_error L_connect_onError \<lparr>listeners = [], ended = False\<rparr>),
       future = Pending,
       c_log = [Net_connect, Future_onSubscribe,
                Socket_once Ev_error L_connect_onError,
                Socket_once Ev_connect L_connect_onComplete] \<rparr>"

definition connect_onError :: "error \<Rightarrow> ('f, 'e, 'o) connecting \<Rightarrow> ('f, 'e, 'o) connecting" where
  "connect_onError err st =
     st\<lparr>c_socket := removeAllListeners (c_socket st),
        future := Failed err,
        c_log := c_log st @ [Socket_removeAllListeners, Future_onError err]\<rparr>"

definition connect_onComplete :: "('f, 'e, 'o) connecting \<Rightarrow> ('f, 'e, 'o) connecting" where
  "connect_onComplete st =
     (let sock = removeAllListeners (c_socket st);
          conn = constructor (c_options st) (c_encoders st) sock
      in st\<lparr>c_socket := socket conn,
            future := Resolved conn,
            c_log := c_log st @ [Socket_removeAllListeners] @ log conn @ [Future_onComplete]\<rparr>)"

definition connect_remove :: "('f, 'e, 'o) connecting \<Rightarrow> ('f, 'e, 'o) connecting" where
  "connect_remove st =
     st\<lparr>c_socket := socket_end (removeAllListeners (c_socket st)),
        c_log := c_log st @ [Socket_removeAllListeners, Socket_end]\<rparr>"

fun run_connect_listener ::
  "socket_event \<Rightarrow> listener \<Rightarrow> ('f, 'e, 'o) connecting \<Rightarrow> ('f, 'e, 'o) connecting" where
  "run_connect_listener (Emit_error err) L_connect_onError st = connect_onError err st"
| "run_connect_listener ev L_connect_onComplete st = connect_onComplete st"
| "run_connect_listener ev l st = st"

text \<open>
  A socket event during the attempt runs the listeners that \<^verbatim>\<open>connect\<close> attached; once
  a connection exists, the socket's listeners are the connection's.
\<close>

definition connect_emit ::
  "('f, 'e) collaborators \<Rightarrow> socket_event \<Rightarrow> ('f, 'e, 'o) connecting \<Rightarrow> ('f, 'e, 'o) connecting" where
  "connect_emit env ev st =
     (case future st of
        Resolved conn \<Rightarrow> st\<lparr>future := Resolved (socket_emit env ev conn)\<rparr>
      | _ \<Rightarrow>
          fold (run_connect_listener ev) (listeners_for (event_name_of ev) (c_socket st))
            (st\<lparr>c_socket := drop_once (event_name_of ev) (c_socket st)\<rparr>))"

text \<open>Whether the log of an attempt shows that a connection was built or handed out.\<close>

fun builds_connection :: "'f call \<Rightarrow> bool" where
  "builds_connection (Socket_on n l) = True"
| "builds_connection Future_onComplete = True"
| "builds_connection x = False"

subsection \<open>The frame codec\<close>

text \<open>
  \<^verbatim>\<open>deserializeFrames\<close> and \<^verbatim>\<open>serializeFrameWithLength\<close> are imported from
  \<^verbatim>\<open>rsocket-core\<close>, whose source is not part of the file under study. What follows
  states their contract and gives one codec that meets it.
\<close>

definition serializable :: "('f, 'e) collaborators \<Rightarrow> 'e \<Rightarrow> 'f \<Rightarrow> bool" where
  "serializable env encs frame =
     (case serializeFrameWithLength env frame encs of Inr buf \<Rightarrow> True | Inl err \<Rightarrow> False)"

definition wire1 :: "('f, 'e) collaborators \<Rightarrow> 'e \<Rightarrow> 'f \<Rightarrow> Buffer" where
  "wire1 env encs frame =
     (case serializeFrameWithLength env frame encs of Inr buf \<Rightarrow> buf | Inl err \<Rightarrow> [])"

definition wire :: "('f, 'e) collaborators \<Rightarrow> 'e \<Rightarrow> 'f list \<Rightarrow> Buffer" where
  "wire env encs frames = concat (map (wire1 env encs) frames)"

text \<open>The bytes of a frame that has not arrived whole: nothing, or a proper beginning of one.\<close>

definition incomplete :: "('f, 'e) collaborators \<Rightarrow> 'e \<Rightarrow> Buffer \<Rightarrow> bool" where
  "incomplete env encs p \<longleftrightarrow>
     p = [] \<or> (\<exists>frame. serializable env encs frame \<and> strict_prefix p (wire1 env encs frame))"

text \<open>
  Modelled from the spec: the contract of the codec collaborator, whose functions
  \<^verbatim>\<open>deserializeFrames\<close> and \<^verbatim>\<open>serializeFrameWithLength\<close> are missing. The spec has
  extraction return the complete frames, in order, and the trailing incomplete bytes,
  never discarding bytes that belong to an incomplete frame, and has serialization
  produce an encoding from which an extractor recovers the frame boundaries: on the
  serialized frames followed by the beginning of another, extraction returns exactly
  those frames and that beginning.
\<close>

definition codec_contract :: "('f, 'e) collaborators \<Rightarrow> 'e \<Rightarrow> bool" where
  "codec_contract env encs \<longleftrightarrow>
     (\<forall>frames p. list_all (serializable env encs) frames \<and> incomplete env encs p \<longrightarrow>
        deserializeFrames env (wire env encs frames @ p) encs = Inr (frames, p))"

text \<open>
  Modelled from the spec: a length-prefixed codec in place of the missing
  \<^verbatim>\<open>deserializeFrames\<close> and \<^verbatim>\<open>serializeFrameWithLength\<close>. The spec says only that the
  encoding is length-prefixed; here a frame is its payload bytes and the prefix is the
  payload's length in three bytes, most significant first. A payload too long for the
  prefix cannot be serialized.
\<close>

definition writeUInt24BE :: "nat \<Rightarrow> Buffer" where
  "writeUInt24BE n = [of_nat (n div 65536), of_nat (n div 256), of_nat n]"

definition readUInt24BE :: "8 word \<Rightarrow> 8 word \<Rightarrow> 8 word \<Rightarrow> nat" where
  "readUInt24BE a b c = unat a * 65536 + unat b * 256 + unat c"

fun lp_extract :: "Buffer \<Rightarrow> Buffer list \<times> Buffer" where
  "lp_extract (a # b # c # rest) =
     (let n = readUInt24BE a b c
      in if length rest < n then ([], a # b # c # rest)
         else (case lp_extract (drop n rest) of
                 (frames, remaining) \<Rightarrow> (take n rest # frames, remaining)))"
| "lp_extract bs = ([], bs)"

definition lp_deserializeFrames :: "Buffer \<Rightarrow> unit \<Rightarrow> error + (Buffer list \<times> Buffer)" where
  "lp_deserializeFrames buf encs = Inr (lp_extract buf)"

definition lp_serializeFrameWithLength :: "Buffer \<Rightarrow> unit \<Rightarrow> error + Buffer" where
  "lp_serializeFrameWithLength frame encs =
     (if length frame < 16777216 then Inr (writeUInt24BE (length frame) @ frame)
      else Inl (Error ''frame too long''))"

definition lp_env :: "(Buffer, unit) collaborators" where
  "lp_env =
     \<lparr> deserializeFrames = lp_deserializeFrames,
       serializeFrameWithLength = lp_serializeFrameWithLength,
       socket_write = (\<lambda>sock buf. None) \<rparr>"

text \<open>
  Collaborators that throw, to exercise the error paths: extraction rejects every
  input, serialization rejects the empty frame, and writing throws once the socket has
  been ended.
\<close>

definition throwing_env :: "(Buffer, unit) collaborators" where
  "throwing_env =
     \<lparr> deserializeFrames = (\<lambda>buf encs. Inl (Error ''malformed frame'')),
       serializeFrameWithLength =
         (\<lambda>frame encs. if frame = [] then Inl (Error ''empty frame'') else Inr frame),
       socket_write =
         (\<lambda>sock buf. if ended sock then Some (Error ''write after end'') else None) \<rparr>"

subsection \<open>What holds of every connection\<close>

text \<open>
  The two sets have no duplicates, the close notification is resolved exactly when the
  connection is no longer active, and the socket carries the four listeners of the
  constructor while the connection is active and none afterwards.
\<close>

definition connection_listeners :: "(event_name \<times> bool \<times> listener) list" where
  "connection_listeners =
     [(Ev_close, False, L_close), (Ev_data, False, L_handleData),
      (Ev_end, False, L_handleEnd), (Ev_error, False, L_handleError)]"

definition consistent :: "('f, 'e, 'o) TcpDuplexConnection \<Rightarrow> bool" where
  "consistent c \<longleftrightarrow>
     distinct (receivers c) \<and> distinct (senders c) \<and> (active c \<longleftrightarrow> \<not> close_resolved c)
     \<and> listeners (socket c) = (if active c then connection_listeners else [])"

text \<open>
  A connection over the length-prefixed codec with two receivers and one sender
  registered.
\<close>

definition fresh_socket :: net_Socket where
  "fresh_socket = \<lparr>listeners = [], ended = False\<rparr>"

definition example_connection :: "(Buffer, unit, unit) TcpDuplexConnection" where
  "example_connection =
     run lp_env [Do_request 1, Do_request 2, Do_send 0, Producer_onSubscribe 0 7 [] ]
       (constructor () () fresh_socket)"

text \<open>The calls a log shows on one subscriber, in order.\<close>

fun subscriber_of :: "'f call \<Rightarrow> nat option" where
  "subscriber_of (Subscriber_onSubscribe r) = Some r"
| "subscriber_of (Subscriber_onNext r frame) = Some r"
| "subscriber_of (Subscriber_onError r err) = Some r"
| "subscriber_of (Subscriber_onComplete r) = Some r"
| "subscriber_of x = None"

definition calls_to :: "nat \<Rightarrow> 'f call list \<Rightarrow> 'f call list" where
  "calls_to r cs = filter (\<lambda>x. subscriber_of x = Some r) cs"

text \<open>The calls a step added to the log.\<close>

definition new_calls ::
  "('f, 'e, 'o) TcpDuplexConnection \<Rightarrow> ('f, 'e, 'o) TcpDuplexConnection \<Rightarrow> 'f call list" where
  "new_calls c c' = drop (length (log c)) (log c')"

text \<open>
  A connection that was closed and on which a subscriber of \<^verbatim>\<open>receive()\<close> then
  signalled demand.
\<close>

definition closed_connection :: "(Buffer, unit, unit) TcpDuplexConnection" where
  "closed_connection =
     run throwing_env [Do_close, Do_receive_subscribe 1, Do_request 1]
       (constructor () () fresh_socket)"

text \<open>
  The frames that \<^verbatim>\<open>_readFrames\<close> returns over a run of chunks and the remainder it
  leaves, when no extraction throws.
\<close>

fun read_chunks ::
  "('f, 'e) collaborators \<Rightarrow> Buffer list \<Rightarrow> ('f, 'e, 'o) TcpDuplexConnection
     \<Rightarrow> error + ('f list \<times> Buffer)" where
  "read_chunks env [] c = Inr ([], buffer c)"
| "read_chunks env (chunk # chunks) c =
     (case readFrames env chunk c of
        Inl err \<Rightarrow> Inl err
      | Inr (frames, c') \<Rightarrow>
          (case read_chunks env chunks c' of
             Inl err \<Rightarrow> Inl err
           | Inr (rest, remaining) \<Rightarrow> Inr (frames @ rest, remaining)))"

fun is_onNext :: "'f call \<Rightarrow> bool" where
  "is_onNext (Subscriber_onNext r frame) = True"
| "is_onNext x = False"

text \<open>From one state to a later one the log only grew, and by no \<^verbatim>\<open>onNext\<close>.\<close>

definition quiet ::
  "('f, 'e, 'o) TcpDuplexConnection \<Rightarrow> ('f, 'e, 'o) TcpDuplexConnection \<Rightarrow> bool" where
  "quiet c c' \<longleftrightarrow> prefix (log c) (log c') \<and> (\<forall>x \<in> set (new_calls c c'). \<not> is_onNext x)"

section \<open>Properties\<close>

subsection \<open>Sets in insertion order\<close>

lemma distinct_set_add: "distinct xs \<Longrightarrow> distinct (set_add x xs)"
  by (simp add: set_add_def)

lemma distinct_set_delete: "distinct xs \<Longrightarrow> distinct (set_delete x xs)"
  by (simp add: set_delete_def distinct_removeAll)

lemma set_set_add: "set (set_add x xs) = insert x (set xs)"
  by (auto simp: set_add_def)

lemma set_set_delete: "set (set_delete x xs) = set xs - {x}"
  by (simp add: set_delete_def)

subsection \<open>close\<close>

lemma close_inactive: "\<not> active c \<Longrightarrow> close c = c"
  by (simp add: close_def)

lemma close_active:
  "active c \<Longrightarrow>
   close c =
     c\<lparr>active := False, close_resolved := True, receivers := [], senders := [],
       socket := socket_end (removeAllListeners (socket c)),
       log := log c @ [Deferred_resolve] @ map Subscriber_onComplete (receivers c)
                @ map Subscription_cancel (senders c)
                @ [Socket_removeAllListeners, Socket_end]\<rparr>"
  by (simp add: close_def called_def Let_def)

lemma active_close: "\<not> active (close c)"
  by (cases "active c") (simp_all add: close_active close_inactive)

lemma close_close: "close (close c) = close c"
  by (rule close_inactive) (rule active_close)

lemma funpow_close: "(close ^^ Suc n) c = close c"
  by (induction n) (simp_all add: close_close)

lemma count_list_map_inj: "inj f \<Longrightarrow> count_list (map f xs) (f x) = count_list xs x"
  by (induction xs) (auto dest: injD)

lemma count_list_distinct: "distinct xs \<Longrightarrow> x \<in> set xs \<Longrightarrow> count_list xs x = 1"
  by (induction xs) auto

lemma count_list_notin: "x \<notin> set xs \<Longrightarrow> count_list xs x = 0"
  by (induction xs) auto

lemma example_connection_eq:
  "example_connection =
     \<lparr> active = True, buffer = [], close_resolved = False, encoders = (), options = (),
       receivers = [1, 2], senders = [7],
       socket = \<lparr>listeners = [(Ev_close, False, L_close), (Ev_data, False, L_handleData),
                               (Ev_end, False, L_handleEnd), (Ev_error, False, L_handleError)],
                  ended = False\<rparr>,
       subscription = (\<lambda>p. None)(0 \<mapsto> 7),
       log = [Socket_on Ev_close L_close, Socket_on Ev_data L_handleData,
              Socket_on Ev_end L_handleEnd, Socket_on Ev_error L_handleError,
              Subscription_request 7 MAX_SAFE_INTEGER] \<rparr>"
  by (simp add: example_connection_def run_def receive_request_def set_add_def send_def
      send_onSubscribe_def constructor_def called_def socket_on_def fresh_socket_def)

subsection \<open>The invariant\<close>

lemma called_fields [simp]:
  "active (called cs c) = active c" "buffer (called cs c) = buffer c"
  "close_resolved (called cs c) = close_resolved c" "encoders (called cs c) = encoders c"
  "options (called cs c) = options c" "receivers (called cs c) = receivers c"
  "senders (called cs c) = senders c" "socket (called cs c) = socket c"
  "subscription (called cs c) = subscription c" "log (called cs c) = log c @ cs"
  by (simp_all add: called_def)

lemma consistent_called [simp]: "consistent (called cs c) = consistent c"
  by (simp add: consistent_def)

lemma consistent_close: "consistent c \<Longrightarrow> consistent (close c)"
  by (cases "active c")
     (simp_all add: close_active close_inactive consistent_def removeAllListeners_def socket_end_def)

lemma consistent_handleError: "consistent c \<Longrightarrow> consistent (handleError err c)"
  by (simp add: handleError_def consistent_close)

lemma consistent_handleData: "consistent c \<Longrightarrow> consistent (handleData env chunk c)"
  by (auto simp: handleData_def readFrames_def consistent_close consistent_handleError
      split: sum.splits prod.splits) (simp add: consistent_def)

lemma consistent_writeFrame: "consistent c \<Longrightarrow> consistent (writeFrame env frame c)"
  by (simp add: writeFrame_def Let_def consistent_handleError split: sum.splits option.splits)

lemma consistent_send_onComplete: "consistent c \<Longrightarrow> consistent (send_onComplete p c)"
  by (simp add: send_onComplete_def consistent_def distinct_set_delete split: option.splits)

lemma consistent_send_signal: "consistent c \<Longrightarrow> consistent (send_signal env p sig c)"
  by (cases sig) (simp_all add: consistent_writeFrame consistent_send_onComplete consistent_handleError)

lemma consistent_fold_send_signal:
  "consistent c \<Longrightarrow> consistent (fold (send_signal env p) sync c)"
  by (induction sync arbitrary: c) (simp_all add: consistent_send_signal)

lemma consistent_send_onSubscribe:
  assumes "consistent c"
  shows "consistent (send_onSubscribe env p sub sync c)"
proof -
  have "consistent (called [Subscription_request sub MAX_SAFE_INTEGER]
          (c\<lparr>subscription := (subscription c)(p \<mapsto> sub)\<rparr>))"
    using assms by (simp add: consistent_def)
  then have "consistent (fold (send_signal env p) sync
          (called [Subscription_request sub MAX_SAFE_INTEGER]
            (c\<lparr>subscription := (subscription c)(p \<mapsto> sub)\<rparr>)))"
    by (rule consistent_fold_send_signal)
  then show ?thesis
    by (simp add: send_onSubscribe_def Let_def consistent_def distinct_set_add)
qed

lemma drop_once_connection:
  "listeners s = connection_listeners \<Longrightarrow> drop_once n s = s"
  by (simp add: drop_once_def connection_listeners_def)

lemma drop_once_none: "listeners s = [] \<Longrightarrow> drop_once n s = s"
  by (simp add: drop_once_def)

lemma socket_emit_inactive:
  "consistent c \<Longrightarrow> \<not> active c \<Longrightarrow> socket_emit env ev c = c"
  by (simp add: socket_emit_def consistent_def listeners_for_def drop_once_none)

lemma socket_emit_active:
  assumes "consistent c" and "active c"
  shows "socket_emit env ev c =
           (case ev of
              Emit_close \<Rightarrow> close c
            | Emit_connect \<Rightarrow> c
            | Emit_data chunk \<Rightarrow> handleData env chunk c
            | Emit_end \<Rightarrow> handleEnd c
            | Emit_error err \<Rightarrow> handleError err c)"
proof -
  have l: "listeners (socket c) = connection_listeners"
    using assms by (simp add: consistent_def)
  show ?thesis
    by (cases ev)
       (simp_all add: socket_emit_def drop_once_connection [OF l] listeners_for_def l
          connection_listeners_def)
qed

lemma consistent_socket_emit: "consistent c \<Longrightarrow> consistent (socket_emit env ev c)"
  by (cases "active c")
     (simp_all add: socket_emit_inactive socket_emit_active consistent_close handleEnd_def
        consistent_handleData consistent_handleError split: socket_event.splits)

lemma consistent_step: "consistent c \<Longrightarrow> consistent (step env a c)"
proof (cases a)
  case (Do_send p)
  assume "consistent c"
  then show ?thesis using Do_send by (simp add: send_def consistent_def)
next
  case (Do_request r)
  assume "consistent c"
  then show ?thesis using Do_request by (simp add: receive_request_def consistent_def distinct_set_add)
next
  case (Do_cancel r)
  assume "consistent c"
  then show ?thesis using Do_cancel by (simp add: receive_cancel_def consistent_def distinct_set_delete)
qed (simp_all add: sendOne_def consistent_writeFrame consistent_send_onSubscribe
      consistent_send_signal receive_subscribe_def consistent_close consistent_socket_emit)

lemma consistent_run: "consistent c \<Longrightarrow> consistent (run env as c)"
  unfolding run_def by (induction as arbitrary: c) (simp_all add: consistent_step)

lemma consistent_constructor:
  "listeners sock = [] \<Longrightarrow> consistent (constructor opts encs sock)"
  by (simp add: consistent_def constructor_def socket_on_def connection_listeners_def)

text \<open>
  Every state of a connection built on a socket without listeners, as
  \<^verbatim>\<open>connect\<close> builds it, is consistent.
\<close>

lemma consistent_reachable:
  "listeners sock = [] \<Longrightarrow> consistent (run env as (constructor opts encs sock))"
  by (intro consistent_run consistent_constructor)

subsection \<open>The error path\<close>

lemma handleError_inactive:
  "\<not> active c \<Longrightarrow>
   handleError err c = called (map (\<lambda>r. Subscriber_onError r err) (receivers c)) c"
  by (simp add: handleError_def close_inactive)

lemma handleError_active:
  "active c \<Longrightarrow>
   handleError err c =
     c\<lparr>active := False, close_resolved := True, receivers := [], senders := [],
       socket := socket_end (removeAllListeners (socket c)),
       log := log c @ map (\<lambda>r. Subscriber_onError r err) (receivers c)
                @ [Deferred_resolve] @ map Subscriber_onComplete (receivers c)
                @ map Subscription_cancel (senders c)
                @ [Socket_removeAllListeners, Socket_end]\<rparr>"
  by (simp add: handleError_def close_active called_def)

lemma active_handleError: "\<not> active (handleError err c)"
  by (simp add: handleError_def active_close)

lemma close_handleError: "close (handleError err c) = handleError err c"
  by (rule close_inactive) (rule active_handleError)

lemma close_resolved_close: "consistent c \<Longrightarrow> close_resolved (close c)"
  using consistent_close [of c] active_close [of c] by (simp add: consistent_def)

lemma handleData_throws:
  "deserializeFrames env (buffer c @ chunk) (encoders c) = Inl err \<Longrightarrow>
   handleData env chunk c = handleError err c"
  by (simp add: handleData_def readFrames_def close_handleError)

lemma handleData_returns:
  "deserializeFrames env (buffer c @ chunk) (encoders c) = Inr (frames, remaining) \<Longrightarrow>
   handleData env chunk c =
     c\<lparr>buffer := remaining, log := log c @ deliver (receivers c) frames\<rparr>"
  by (simp add: handleData_def readFrames_def called_def)

lemma writeFrame_serialize_throws:
  "serializeFrameWithLength env frame (encoders c) = Inl err \<Longrightarrow>
   writeFrame env frame c = handleError err c"
  by (simp add: writeFrame_def)

lemma writeFrame_write_throws:
  "serializeFrameWithLength env frame (encoders c) = Inr buf \<Longrightarrow>
   socket_write env (socket c) buf = Some err \<Longrightarrow>
   writeFrame env frame c = handleError err (called [Socket_write buf] c)"
  by (simp add: writeFrame_def Let_def)

lemma writeFrame_written:
  "serializeFrameWithLength env frame (encoders c) = Inr buf \<Longrightarrow>
   socket_write env (socket c) buf = None \<Longrightarrow>
   writeFrame env frame c = called [Socket_write buf] c"
  by (simp add: writeFrame_def Let_def)

lemma new_calls_handleError:
  "new_calls c (handleError err c) =
     map (\<lambda>r. Subscriber_onError r err) (receivers c)
     @ (if active c
        then [Deferred_resolve] @ map Subscriber_onComplete (receivers c)
             @ map Subscription_cancel (senders c) @ [Socket_removeAllListeners, Socket_end]
        else [])"
  by (cases "active c") (simp_all add: new_calls_def handleError_active handleError_inactive)

text \<open>
  C4. Every failure after the connect runs the one error path, \<^verbatim>\<open>_handleError\<close>, which
  calls \<^verbatim>\<open>onError(err)\<close> on every registered receiver and then \<^verbatim>\<open>close()\<close>: the
  socket's \<^verbatim>\<open>error\<close> event, the socket's \<^verbatim>\<open>end\<close> event (with the error
  "Socket closed unexpectedly"), an error thrown by the extraction of frames, an error
  thrown by serialization, and an error thrown by the write. After it the connection is
  not active and the close notification is resolved.
\<close>

theorem unified_error_path:
  assumes "consistent c"
  shows "handleError err c =
           close (called (map (\<lambda>r. Subscriber_onError r err) (receivers c)) c)
         \<and> new_calls c (handleError err c) =
             map (\<lambda>r. Subscriber_onError r err) (receivers c)
             @ (if active c
                then [Deferred_resolve] @ map Subscriber_onComplete (receivers c)
                     @ map Subscription_cancel (senders c)
                     @ [Socket_removeAllListeners, Socket_end]
                else [])
         \<and> \<not> active (handleError err c) \<and> close_resolved (handleError err c)
         \<and> (active c \<longrightarrow> socket_emit env (Emit_error err) c = handleError err c)
         \<and> (active c \<longrightarrow>
              socket_emit env Emit_end c =
                handleError (Error ''RSocketTcpClient: Socket closed unexpectedly.'') c)
         \<and> (deserializeFrames env (buffer c @ chunk) (encoders c) = Inl err \<longrightarrow>
              handleData env chunk c = handleError err c)
         \<and> (serializeFrameWithLength env frame (encoders c) = Inl err \<longrightarrow>
              writeFrame env frame c = handleError err c)
         \<and> (serializeFrameWithLength env frame (encoders c) = Inr buf
              \<and> socket_write env (socket c) buf = Some err \<longrightarrow>
              writeFrame env frame c = handleError err (called [Socket_write buf] c))"
proof -
  have "close_resolved (handleError err c)"
    unfolding handleError_def using assms by (intro close_resolved_close) simp
  moreover have "active c \<longrightarrow> socket_emit env (Emit_error err) c = handleError err c"
    using assms by (simp add: socket_emit_active)
  moreover have "active c \<longrightarrow>
      socket_emit env Emit_end c =
        handleError (Error ''RSocketTcpClient: Socket closed unexpectedly.'') c"
    using assms by (simp add: socket_emit_active handleEnd_def)
  moreover note new_calls_handleError [of c err]
  ultimately show ?thesis
    by (simp add: handleError_def [symmetric] active_handleError handleData_throws
        writeFrame_serialize_throws writeFrame_write_throws)
qed

lemma closed_connection_eq:
  "closed_connection =
     \<lparr> active = False, buffer = [], close_resolved = True, encoders = (), options = (),
       receivers = [1], senders = [],
       socket = \<lparr>listeners = [], ended = True\<rparr>,
       subscription = (\<lambda>p. None),
       log = [Socket_on Ev_close L_close, Socket_on Ev_data L_handleData,
              Socket_on Ev_end L_handleEnd, Socket_on Ev_error L_handleError,
              Deferred_resolve, Socket_removeAllListeners, Socket_end,
              Subscriber_onSubscribe 1] \<rparr>"
  by (simp add: closed_connection_def run_def receive_request_def receive_subscribe_def
      set_add_def close_def Let_def constructor_def called_def socket_on_def fresh_socket_def
      removeAllListeners_def socket_end_def)

lemma consistent_example_connection: "consistent example_connection"
  unfolding example_connection_def
  by (intro consistent_run consistent_constructor) (simp add: fresh_socket_def)

lemma consistent_closed_connection: "consistent closed_connection"
  unfolding closed_connection_def
  by (intro consistent_run consistent_constructor) (simp add: fresh_socket_def)

theorem unified_error_path_witness:
  "consistent example_connection \<and> active example_connection
   \<and> deserializeFrames throwing_env (buffer example_connection @ [1, 2]) (encoders example_connection)
       = Inl (Error ''malformed frame'')
   \<and> serializeFrameWithLength throwing_env [] (encoders example_connection)
       = Inl (Error ''empty frame'')
   \<and> serializeFrameWithLength throwing_env [5] (encoders closed_connection) = Inr [5]
   \<and> socket_write throwing_env (socket closed_connection) [5] = Some (Error ''write after end'')
   \<and> socket_emit throwing_env (Emit_error (Error ''reset'')) example_connection
       = handleError (Error ''reset'') example_connection
   \<and> new_calls example_connection (socket_emit throwing_env Emit_end example_connection)
       = [Subscriber_onError 1 (Error ''RSocketTcpClient: Socket closed unexpectedly.''),
          Subscriber_onError 2 (Error ''RSocketTcpClient: Socket closed unexpectedly.''),
          Deferred_resolve, Subscriber_onComplete 1, Subscriber_onComplete 2,
          Subscription_cancel 7, Socket_removeAllListeners, Socket_end]
   \<and> handleData throwing_env [1, 2] example_connection
       = handleError (Error ''malformed frame'') example_connection
   \<and> writeFrame throwing_env [] example_connection
       = handleError (Error ''empty frame'') example_connection
   \<and> writeFrame throwing_env [5] closed_connection
       = handleError (Error ''write after end'') (called [Socket_write [5] ] closed_connection)
   \<and> close_resolved (handleError (Error ''reset'') example_connection)"
proof -
  have a: "active example_connection"
    by (simp add: example_connection_eq)
  have d: "deserializeFrames throwing_env (buffer example_connection @ [1, 2])
             (encoders example_connection) = Inl (Error ''malformed frame'')"
    by (simp add: throwing_env_def)
  have s: "serializeFrameWithLength throwing_env [] (encoders example_connection)
             = Inl (Error ''empty frame'')"
    by (simp add: throwing_env_def)
  have s': "serializeFrameWithLength throwing_env [5] (encoders closed_connection) = Inr [5]"
    by (simp add: throwing_env_def)
  have w: "socket_write throwing_env (socket closed_connection) [5] = Some (Error ''write after end'')"
    by (simp add: throwing_env_def closed_connection_eq)
  note T1 = unified_error_path [OF consistent_example_connection,
      of "Error ''reset''" throwing_env "[1, 2]" "[]" "[5]"]
  note T2 = unified_error_path [OF consistent_example_connection,
      of "Error ''malformed frame''" throwing_env "[1, 2]" "[]" "[5]"]
  note T3 = unified_error_path [OF consistent_example_connection,
      of "Error ''empty frame''" throwing_env "[1, 2]" "[]" "[5]"]
  note T4 = unified_error_path [OF consistent_closed_connection,
      of "Error ''write after end''" throwing_env "[1, 2]" "[5]" "[5]"]
  from T1 a have e1: "socket_emit throwing_env (Emit_error (Error ''reset'')) example_connection
       = handleError (Error ''reset'') example_connection"
    by blast
  from T1 a have e2: "socket_emit throwing_env Emit_end example_connection =
       handleError (Error ''RSocketTcpClient: Socket closed unexpectedly.'') example_connection"
    by blast
  have e2': "new_calls example_connection (socket_emit throwing_env Emit_end example_connection)
       = [Subscriber_onError 1 (Error ''RSocketTcpClient: Socket closed unexpectedly.''),
          Subscriber_onError 2 (Error ''RSocketTcpClient: Socket closed unexpectedly.''),
          Deferred_resolve, Subscriber_onComplete 1, Subscriber_onComplete 2,
          Subscription_cancel 7, Socket_removeAllListeners, Socket_end]"
    unfolding e2 new_calls_def
    by (subst handleError_active [OF a]) (simp add: example_connection_eq)
  from T2 d have e3: "handleData throwing_env [1, 2] example_connection
       = handleError (Error ''malformed frame'') example_connection"
    by blast
  from T3 s have e4: "writeFrame throwing_env [] example_connection
       = handleError (Error ''empty frame'') example_connection"
    by blast
  from T4 s' w have e5: "writeFrame throwing_env [5] closed_connection
       = handleError (Error ''write after end'') (called [Socket_write [5] ] closed_connection)"
    by blast
  from T1 have e6: "close_resolved (handleError (Error ''reset'') example_connection)"
    by blast
  from consistent_example_connection a d s s' w e1 e2' e3 e4 e5 e6 show ?thesis
    by blast
qed

subsection \<open>What one subscriber is told\<close>

lemma calls_to_append [simp]: "calls_to r (xs @ ys) = calls_to r xs @ calls_to r ys"
  by (simp add: calls_to_def)

lemma calls_to_Nil [simp]: "calls_to r [] = []"
  by (simp add: calls_to_def)

lemma calls_to_Cons [simp]:
  "calls_to r (x # xs) = (if subscriber_of x = Some r then x # calls_to r xs else calls_to r xs)"
  by (simp add: calls_to_def)

lemma calls_to_onError:
  "distinct rs \<Longrightarrow>
   calls_to r (map (\<lambda>r'. Subscriber_onError r' err) rs) =
     (if r \<in> set rs then [Subscriber_onError r err] else [])"
  by (induction rs) auto

lemma calls_to_onComplete:
  "distinct rs \<Longrightarrow>
   calls_to r (map Subscriber_onComplete rs) =
     (if r \<in> set rs then [Subscriber_onComplete r] else [])"
  by (induction rs) auto

lemma calls_to_cancel [simp]: "calls_to r (map Subscription_cancel ss) = []"
  by (induction ss) simp_all

text \<open>
  C9, as amended. When the error path runs on a connection that is still active, every
  receiver registered at that moment is told \<^verbatim>\<open>onError(err)\<close> and then
  \<^verbatim>\<open>onComplete()\<close>, and nothing else: all the errors come first, then the close
  notification is resolved, then come all the completions.
\<close>

theorem error_then_complete:
  assumes "active c" and "distinct (receivers c)"
  shows "new_calls c (handleError err c) =
           map (\<lambda>r. Subscriber_onError r err) (receivers c)
           @ [Deferred_resolve] @ map Subscriber_onComplete (receivers c)
           @ map Subscription_cancel (senders c) @ [Socket_removeAllListeners, Socket_end]
         \<and> (\<forall>r \<in> set (receivers c).
              calls_to r (new_calls c (handleError err c)) =
                [Subscriber_onError r err, Subscriber_onComplete r])"
proof -
  have n: "new_calls c (handleError err c) =
           map (\<lambda>r. Subscriber_onError r err) (receivers c)
           @ [Deferred_resolve] @ map Subscriber_onComplete (receivers c)
           @ map Subscription_cancel (senders c) @ [Socket_removeAllListeners, Socket_end]"
    using assms(1) by (simp add: new_calls_handleError)
  have "calls_to r (new_calls c (handleError err c)) =
          [Subscriber_onError r err, Subscriber_onComplete r]"
    if "r \<in> set (receivers c)" for r
    unfolding n using that assms(2)
    by (simp add: calls_to_onError calls_to_onComplete)
  with n show ?thesis by blast
qed

theorem error_then_complete_witness:
  "active example_connection \<and> distinct (receivers example_connection)
   \<and> 2 \<in> set (receivers example_connection)
   \<and> calls_to 2 (new_calls example_connection (handleError (Error ''reset'') example_connection))
       = [Subscriber_onError 2 (Error ''reset''), Subscriber_onComplete 2]"
proof -
  have a: "active example_connection" and d: "distinct (receivers example_connection)"
    and r: "2 \<in> set (receivers example_connection)"
    by (simp_all add: example_connection_eq)
  from error_then_complete [OF a d, of "Error ''reset''"] a d r show ?thesis
    by blast
qed

text \<open>
  The claim as stated fails on a connection that is no longer active: \<^verbatim>\<open>close()\<close>
  returns at once, so a receiver that registered after the close is told the error and
  never a completion. Here serialization of the empty frame throws.
\<close>

theorem error_without_complete:
  "receivers closed_connection = [1]
   \<and> sendOne throwing_env [] closed_connection
       = handleError (Error ''empty frame'') closed_connection
   \<and> new_calls closed_connection (handleError (Error ''empty frame'') closed_connection)
       = [Subscriber_onError 1 (Error ''empty frame'')]"
  by (simp add: sendOne_def writeFrame_def throwing_env_def new_calls_handleError)
     (simp add: closed_connection_eq)

subsection \<open>Delivery of frames\<close>

lemma deliver_Nil [simp]: "deliver rs [] = []"
  by (simp add: deliver_def)

lemma deliver_Cons [simp]:
  "deliver rs (frame # frames) = map (\<lambda>r. Subscriber_onNext r frame) rs @ deliver rs frames"
  by (simp add: deliver_def)

lemma deliver_append [simp]: "deliver rs (fs @ gs) = deliver rs fs @ deliver rs gs"
  by (simp add: deliver_def)

lemma frames_seen_append [simp]: "frames_seen r (xs @ ys) = frames_seen r xs @ frames_seen r ys"
  by (induction r xs rule: frames_seen.induct) simp_all

lemma frames_seen_one_frame:
  "distinct rs \<Longrightarrow>
   frames_seen r (map (\<lambda>r'. Subscriber_onNext r' frame) rs) = (if r \<in> set rs then [frame] else [])"
  by (induction rs) auto

lemma frames_seen_deliver:
  "distinct rs \<Longrightarrow> r \<in> set rs \<Longrightarrow> frames_seen r (deliver rs frames) = frames"
  by (induction frames) (simp_all add: frames_seen_one_frame)

lemma frames_seen_deliver_other:
  "r \<notin> set rs \<Longrightarrow> frames_seen r (deliver rs frames) = []"
proof (induction frames)
  case (Cons frame frames)
  have "frames_seen r (map (\<lambda>r'. Subscriber_onNext r' frame) rs) = []"
    using Cons.prems by (induction rs) auto
  with Cons show ?case by simp
qed simp

lemma calls_to_onNext:
  "distinct rs \<Longrightarrow>
   calls_to r (map (\<lambda>r'. Subscriber_onNext r' frame) rs) =
     (if r \<in> set rs then [Subscriber_onNext r frame] else [])"
  by (induction rs) auto

lemma calls_to_deliver:
  "distinct rs \<Longrightarrow> r \<in> set rs \<Longrightarrow>
   calls_to r (deliver rs frames) = map (Subscriber_onNext r) frames"
  by (induction frames) (simp_all add: calls_to_onNext)

lemma new_calls_self [simp]: "new_calls c c = []"
  by (simp add: new_calls_def)

lemma new_calls_called [simp]: "new_calls c (called cs c) = cs"
  by (simp add: new_calls_def)

lemma receivers_handleData_returns:
  "deserializeFrames env (buffer c @ chunk) (encoders c) = Inr (frames, remaining) \<Longrightarrow>
   receivers (handleData env chunk c) = receivers c"
  by (simp add: handleData_returns)

lemma new_calls_handleData_returns:
  "deserializeFrames env (buffer c @ chunk) (encoders c) = Inr (frames, remaining) \<Longrightarrow>
   new_calls c (handleData env chunk c) = deliver (receivers c) frames"
  by (simp add: handleData_returns new_calls_def)

lemma new_calls_trans:
  "prefix (log c) (log c') \<Longrightarrow> prefix (log c') (log c'') \<Longrightarrow>
   new_calls c c'' = new_calls c c' @ new_calls c' c''"
  by (auto simp: new_calls_def prefix_def)

lemma read_chunks_cong:
  "buffer c = buffer d \<Longrightarrow> encoders c = encoders d \<Longrightarrow>
   read_chunks env chunks c = read_chunks env chunks d"
proof (induction chunks arbitrary: c d)
  case (Cons chunk chunks)
  show ?case
  proof (cases "deserializeFrames env (buffer d @ chunk) (encoders d)")
    case (Inl err)
    with Cons.prems show ?thesis by (simp add: readFrames_def)
  next
    case (Inr res)
    obtain fs rem where res: "res = (fs, rem)" by (cases res)
    have "read_chunks env chunks (c\<lparr>buffer := rem\<rparr>) = read_chunks env chunks (d\<lparr>buffer := rem\<rparr>)"
      using Cons.prems by (intro Cons.IH) simp_all
    with Inr res Cons.prems show ?thesis by (simp add: readFrames_def)
  qed
qed simp

lemma handle_chunks_returns:
  "read_chunks env chunks c = Inr (frames, remaining) \<Longrightarrow>
   fold (handleData env) chunks c =
     c\<lparr>buffer := remaining, log := log c @ deliver (receivers c) frames\<rparr>"
proof (induction chunks arbitrary: c frames)
  case Nil
  then show ?case by simp
next
  case (Cons chunk chunks)
  from Cons.prems obtain fs rem gs where
    d: "deserializeFrames env (buffer c @ chunk) (encoders c) = Inr (fs, rem)"
    and r: "read_chunks env chunks (c\<lparr>buffer := rem\<rparr>) = Inr (gs, remaining)"
    and f: "frames = fs @ gs"
    by (auto simp: readFrames_def split: sum.splits prod.splits)
  have r': "read_chunks env chunks (c\<lparr>buffer := rem, log := log c @ deliver (receivers c) fs\<rparr>)
              = Inr (gs, remaining)"
    using r read_chunks_cong [of "c\<lparr>buffer := rem, log := log c @ deliver (receivers c) fs\<rparr>"
        "c\<lparr>buffer := rem\<rparr>" env chunks]
    by simp
  show ?case
    by (simp add: handleData_returns [OF d] Cons.IH [OF r'] f)
qed

text \<open>
  C5. With any number of receivers registered, each of them is handed every frame
  extracted from the inbound chunks exactly once, and all of them in the order of
  extraction: what each receiver is told is \<^verbatim>\<open>onNext\<close> of the first frame, of the
  second, and so on, the same sequence for all.
\<close>

theorem broadcast_to_all_receivers:
  assumes "distinct (receivers c)"
      and "read_chunks env chunks c = Inr (frames, remaining)"
  shows "new_calls c (fold (handleData env) chunks c) = deliver (receivers c) frames
         \<and> (\<forall>r \<in> set (receivers c).
              calls_to r (new_calls c (fold (handleData env) chunks c))
                = map (Subscriber_onNext r) frames
              \<and> frames_seen r (new_calls c (fold (handleData env) chunks c)) = frames)"
  using assms
  by (simp add: handle_chunks_returns [OF assms(2)] new_calls_def calls_to_deliver
      frames_seen_deliver)


lemma lp_extract_two_chunks:
  "read_chunks lp_env [ [0, 0, 1, 65, 0, 0], [2, 66, 67] ] example_connection
     = Inr ([ [65], [66, 67] ], [])"
  by (simp add: readFrames_def lp_env_def lp_deserializeFrames_def readUInt24BE_def
      example_connection_eq)

theorem broadcast_to_all_receivers_witness:
  "distinct (receivers example_connection)
   \<and> read_chunks lp_env [ [0, 0, 1, 65, 0, 0], [2, 66, 67] ] example_connection
       = Inr ([ [65], [66, 67] ], [])
   \<and> receivers example_connection = [1, 2]
   \<and> new_calls example_connection
        (fold (handleData lp_env) [ [0, 0, 1, 65, 0, 0], [2, 66, 67] ] example_connection)
       = [Subscriber_onNext 1 [65], Subscriber_onNext 2 [65],
          Subscriber_onNext 1 [66, 67], Subscriber_onNext 2 [66, 67] ]
   \<and> frames_seen 1 (new_calls example_connection
        (fold (handleData lp_env) [ [0, 0, 1, 65, 0, 0], [2, 66, 67] ] example_connection))
       = [ [65], [66, 67] ]
   \<and> frames_seen 2 (new_calls example_connection
        (fold (handleData lp_env) [ [0, 0, 1, 65, 0, 0], [2, 66, 67] ] example_connection))
       = [ [65], [66, 67] ]"
proof -
  have d: "distinct (receivers example_connection)"
    and r: "receivers example_connection = [1, 2]"
    by (simp_all add: example_connection_eq)
  note T = broadcast_to_all_receivers [OF d lp_extract_two_chunks]
  from T have n: "new_calls example_connection
        (fold (handleData lp_env) [ [0, 0, 1, 65, 0, 0], [2, 66, 67] ] example_connection)
       = [Subscriber_onNext 1 [65], Subscriber_onNext 2 [65],
          Subscriber_onNext 1 [66, 67], Subscriber_onNext 2 [66, 67] ]"
    by (simp add: r)
  from T r have "frames_seen 1 (new_calls example_connection
        (fold (handleData lp_env) [ [0, 0, 1, 65, 0, 0], [2, 66, 67] ] example_connection))
       = [ [65], [66, 67] ]"
    and "frames_seen 2 (new_calls example_connection
        (fold (handleData lp_env) [ [0, 0, 1, 65, 0, 0], [2, 66, 67] ] example_connection))
       = [ [65], [66, 67] ]"
    by simp_all
  with d r n lp_extract_two_chunks show ?thesis
    by blast
qed

subsection \<open>receive\<close>

lemma set_add_idem: "set_add x (set_add x xs) = set_add x xs"
  by (simp add: set_add_def)

lemma set_add_after_delete: "set_add x (set_delete x xs) = removeAll x xs @ [x]"
  by (simp add: set_add_def set_delete_def)

text \<open>
  C10. A subscriber of \<^verbatim>\<open>receive()\<close> is not in the receiver set after
  \<^verbatim>\<open>onSubscribe\<close>; \<^verbatim>\<open>request()\<close> puts it there, once however often it is called;
  \<^verbatim>\<open>cancel()\<close> takes it out; a later \<^verbatim>\<open>request()\<close> puts the same subscriber back,
  and it is then handed every frame extracted from the next chunk, in order.
\<close>

theorem receive_registers_on_request:
  assumes "distinct (receivers c)"
  shows "receivers (receive_subscribe subject c) = receivers c
         \<and> set (receivers (receive_request subject c)) = insert subject (set (receivers c))
         \<and> distinct (receivers (receive_request subject c))
         \<and> receive_request subject (receive_request subject c) = receive_request subject c
         \<and> set (receivers (receive_cancel subject c)) = set (receivers c) - {subject}
         \<and> receivers (receive_request subject (receive_cancel subject c))
             = removeAll subject (receivers c) @ [subject]
         \<and> distinct (receivers (receive_request subject (receive_cancel subject c)))
         \<and> (read_chunks env chunks c = Inr (frames, remaining) \<longrightarrow>
              calls_to subject
                (new_calls (receive_request subject (receive_cancel subject c))
                  (fold (handleData env) chunks
                    (receive_request subject (receive_cancel subject c))))
              = map (Subscriber_onNext subject) frames)"
proof -
  let ?c = "receive_request subject (receive_cancel subject c)"
  have r: "receivers ?c = removeAll subject (receivers c) @ [subject]"
    by (simp add: receive_request_def receive_cancel_def set_add_after_delete)
  have d: "distinct (receivers ?c)"
    unfolding r using assms by (simp add: distinct_removeAll)
  have b: "buffer ?c = buffer c" "encoders ?c = encoders c"
    by (simp_all add: receive_request_def receive_cancel_def)
  have "calls_to subject (new_calls ?c (fold (handleData env) chunks ?c))
          = map (Subscriber_onNext subject) frames"
    if "read_chunks env chunks c = Inr (frames, remaining)"
  proof -
    from that have "read_chunks env chunks ?c = Inr (frames, remaining)"
      using read_chunks_cong [OF b, of env chunks] by simp
    then have "new_calls ?c (fold (handleData env) chunks ?c) = deliver (receivers ?c) frames"
      by (simp add: handle_chunks_returns new_calls_def)
    moreover have "subject \<in> set (receivers ?c)"
      by (simp add: r)
    ultimately show ?thesis
      using d by (simp add: calls_to_deliver)
  qed
  moreover have "receive_request subject (receive_request subject c) = receive_request subject c"
    by (simp add: receive_request_def set_add_idem)
  moreover have "distinct (receivers (receive_request subject c))"
    using assms by (simp add: receive_request_def distinct_set_add)
  ultimately show ?thesis
    using r d
    by (simp add: receive_subscribe_def receive_request_def receive_cancel_def
        set_set_add set_set_delete)
qed

theorem receive_registers_on_request_witness:
  "distinct (receivers example_connection)
   \<and> read_chunks lp_env [ [0, 0, 1, 65, 0, 0], [2, 66, 67] ] example_connection
       = Inr ([ [65], [66, 67] ], [])
   \<and> receivers example_connection = [1, 2]
   \<and> receivers (receive_subscribe 3 example_connection) = [1, 2]
   \<and> receivers (receive_request 1 (receive_cancel 1 example_connection)) = [2, 1]
   \<and> calls_to 1
        (new_calls (receive_request 1 (receive_cancel 1 example_connection))
          (fold (handleData lp_env) [ [0, 0, 1, 65, 0, 0], [2, 66, 67] ]
            (receive_request 1 (receive_cancel 1 example_connection))))
       = [Subscriber_onNext 1 [65], Subscriber_onNext 1 [66, 67] ]"
proof -
  have d: "distinct (receivers example_connection)"
    and r: "receivers example_connection = [1, 2]"
    by (simp_all add: example_connection_eq)
  note T = receive_registers_on_request [OF d, of 1 lp_env "[ [0, 0, 1, 65, 0, 0], [2, 66, 67] ]"
      "[ [65], [66, 67] ]" "[]"]
  note U = receive_registers_on_request [OF d, of 3 lp_env "[ [0, 0, 1, 65, 0, 0], [2, 66, 67] ]"
      "[ [65], [66, 67] ]" "[]"]
  from T lp_extract_two_chunks have "calls_to 1
        (new_calls (receive_request 1 (receive_cancel 1 example_connection))
          (fold (handleData lp_env) [ [0, 0, 1, 65, 0, 0], [2, 66, 67] ]
            (receive_request 1 (receive_cancel 1 example_connection))))
       = [Subscriber_onNext 1 [65], Subscriber_onNext 1 [66, 67] ]"
    by simp
  moreover from T r have "receivers (receive_request 1 (receive_cancel 1 example_connection)) = [2, 1]"
    by simp
  moreover from U r have "receivers (receive_subscribe 3 example_connection) = [1, 2]"
    by simp
  ultimately show ?thesis
    using d r lp_extract_two_chunks by blast
qed

subsection \<open>After the close\<close>

lemma active_handleData: "\<not> active c \<Longrightarrow> \<not> active (handleData env chunk c)"
  by (simp add: handleData_def readFrames_def active_close split: sum.splits prod.splits)

lemma active_writeFrame: "\<not> active c \<Longrightarrow> \<not> active (writeFrame env frame c)"
  by (simp add: writeFrame_def Let_def active_handleError split: sum.splits option.splits)

lemma active_send_signal: "\<not> active c \<Longrightarrow> \<not> active (send_signal env p sig c)"
  by (cases sig)
     (simp_all add: active_writeFrame active_handleError send_onComplete_def split: option.splits)

lemma active_fold_send_signal:
  "\<not> active c \<Longrightarrow> \<not> active (fold (send_signal env p) sync c)"
  by (induction sync arbitrary: c) (simp_all add: active_send_signal)

lemma active_send_onSubscribe: "\<not> active c \<Longrightarrow> \<not> active (send_onSubscribe env p sub sync c)"
  by (simp add: send_onSubscribe_def Let_def active_fold_send_signal)

lemma active_run_listener: "\<not> active c \<Longrightarrow> \<not> active (run_listener env ev l c)"
  by (cases "(env, ev, l, c)" rule: run_listener.cases)
     (simp_all add: active_close active_handleData active_handleError handleEnd_def)

lemma active_fold_run_listener:
  "\<not> active c \<Longrightarrow> \<not> active (fold (run_listener env ev) ls c)"
  by (induction ls arbitrary: c) (simp_all add: active_run_listener)

lemma active_socket_emit: "\<not> active c \<Longrightarrow> \<not> active (socket_emit env ev c)"
  by (simp add: socket_emit_def active_fold_run_listener)

lemma active_step: "\<not> active c \<Longrightarrow> \<not> active (step env a c)"
  by (cases a)
     (simp_all add: sendOne_def active_writeFrame send_def active_send_onSubscribe
        active_send_signal receive_subscribe_def receive_request_def receive_cancel_def
        active_close active_socket_emit)

lemma active_run: "\<not> active c \<Longrightarrow> \<not> active (run env as c)"
  unfolding run_def by (induction as arbitrary: c) (simp_all add: active_step)

lemma quiet_refl [simp]: "quiet c c"
  by (simp add: quiet_def)

lemma quiet_trans: "quiet c c' \<Longrightarrow> quiet c' c'' \<Longrightarrow> quiet c c''"
  by (auto simp: quiet_def new_calls_def prefix_def)

lemma quiet_log: "log c' = log c @ cs \<Longrightarrow> \<forall>x \<in> set cs. \<not> is_onNext x \<Longrightarrow> quiet c c'"
  by (simp add: quiet_def new_calls_def)

lemma quiet_close: "quiet c (close c)"
  by (cases "active c") (auto simp: close_active close_inactive intro!: quiet_log)

lemma quiet_handleError: "quiet c (handleError err c)"
proof -
  have "quiet c (called (map (\<lambda>r. Subscriber_onError r err) (receivers c)) c)"
    by (auto intro!: quiet_log)
  then show ?thesis
    unfolding handleError_def by (rule quiet_trans) (rule quiet_close)
qed

lemma quiet_writeFrame: "quiet c (writeFrame env frame c)"
proof (cases "serializeFrameWithLength env frame (encoders c)")
  case (Inl err)
  then show ?thesis by (simp add: writeFrame_def quiet_handleError)
next
  case (Inr buf)
  have q: "quiet c (called [Socket_write buf] c)"
    by (auto intro!: quiet_log)
  show ?thesis
  proof (cases "socket_write env (socket c) buf")
    case None
    with Inr q show ?thesis by (simp add: writeFrame_def Let_def)
  next
    case (Some err)
    with Inr quiet_trans [OF q quiet_handleError] show ?thesis
      by (simp add: writeFrame_def Let_def)
  qed
qed

lemma quiet_send_signal: "quiet c (send_signal env p sig c)"
  by (cases sig)
     (auto simp: quiet_writeFrame quiet_handleError send_onComplete_def
        split: option.splits intro!: quiet_log)

lemma quiet_fold_send_signal: "quiet c (fold (send_signal env p) sync c)"
proof (induction sync arbitrary: c)
  case (Cons sig sync)
  show ?case
    using quiet_trans [OF quiet_send_signal Cons] by simp
qed simp

lemma quiet_send_onSubscribe: "quiet c (send_onSubscribe env p sub sync c)"
proof -
  let ?c2 = "called [Subscription_request sub MAX_SAFE_INTEGER]
               (c\<lparr>subscription := (subscription c)(p \<mapsto> sub)\<rparr>)"
  let ?c3 = "fold (send_signal env p) sync ?c2"
  have "quiet c ?c2"
    by (auto intro!: quiet_log)
  then have "quiet c ?c3"
    by (rule quiet_trans) (rule quiet_fold_send_signal)
  moreover have "quiet ?c3 (?c3\<lparr>senders := set_add sub (senders ?c3)\<rparr>)"
    by (auto intro!: quiet_log)
  ultimately show ?thesis
    unfolding send_onSubscribe_def Let_def by (rule quiet_trans)
qed

lemma quiet_step:
  assumes "consistent c" and "\<not> active c"
  shows "quiet c (step env a c)"
proof (cases a)
  case (Socket_emits ev)
  with assms show ?thesis by (simp add: socket_emit_inactive)
qed (auto simp: sendOne_def quiet_writeFrame send_def quiet_send_onSubscribe quiet_send_signal
      receive_subscribe_def receive_request_def receive_cancel_def quiet_close
      intro!: quiet_log)

lemma quiet_run:
  "consistent c \<Longrightarrow> \<not> active c \<Longrightarrow> quiet c (run env as c)"
proof (induction as arbitrary: c)
  case Nil
  then show ?case by (simp add: run_def)
next
  case (Cons a as)
  have "quiet (step env a c) (run env as (step env a c))"
    using Cons.prems by (intro Cons.IH consistent_step active_step)
  with quiet_step [OF Cons.prems, of env a] have "quiet c (run env as (step env a c))"
    by (rule quiet_trans)
  then show ?case
    by (simp add: run_def)
qed

lemma new_calls_writeFrame_inactive:
  assumes "\<not> active c" and "serializeFrameWithLength env frame (encoders c) = Inr buf"
  shows "new_calls c (writeFrame env frame c) =
           Socket_write buf #
             (case socket_write env (socket c) buf of
                None \<Rightarrow> []
              | Some err \<Rightarrow> map (\<lambda>r. Subscriber_onError r err) (receivers c))"
  using assms
  by (simp add: writeFrame_def Let_def handleError_inactive new_calls_def split: option.splits)

text \<open>
  C2. \<^verbatim>\<open>close()\<close> is idempotent. On an active connection it sets \<open>active\<close> to false,
  resolves the close notification, calls \<^verbatim>\<open>onComplete\<close> on every registered receiver
  and clears the receiver set, calls \<^verbatim>\<open>cancel\<close> on every registered sender and clears
  the sender set, detaches the socket's listeners and ends the socket, in that order. Any
  number of further calls changes nothing, at once or after anything else has happened
  to the connection, so that over any number of calls each receiver is completed exactly
  once and each sender cancelled exactly once.
\<close>

theorem close_idempotent:
  assumes "active c" and "distinct (receivers c)" and "distinct (senders c)"
  shows "close c =
           c\<lparr>active := False, close_resolved := True, receivers := [], senders := [],
             socket := socket_end (removeAllListeners (socket c)),
             log := log c @ [Deferred_resolve] @ map Subscriber_onComplete (receivers c)
                      @ map Subscription_cancel (senders c)
                      @ [Socket_removeAllListeners, Socket_end]\<rparr>
         \<and> (close ^^ Suc n) c = close c
         \<and> close (run env as (close c)) = run env as (close c)
         \<and> (\<forall>r \<in> set (receivers c).
              count_list (drop (length (log c)) (log ((close ^^ Suc n) c)))
                (Subscriber_onComplete r) = 1)
         \<and> (\<forall>s \<in> set (senders c).
              count_list (drop (length (log c)) (log ((close ^^ Suc n) c)))
                (Subscription_cancel s) = 1)"
proof -
  have A: "close c =
           c\<lparr>active := False, close_resolved := True, receivers := [], senders := [],
             socket := socket_end (removeAllListeners (socket c)),
             log := log c @ [Deferred_resolve] @ map Subscriber_onComplete (receivers c)
                      @ map Subscription_cancel (senders c)
                      @ [Socket_removeAllListeners, Socket_end]\<rparr>"
    using assms(1) by (rule close_active)
  have B: "(close ^^ Suc n) c = close c"
    by (rule funpow_close)
  have L: "drop (length (log c)) (log ((close ^^ Suc n) c)) =
             [Deferred_resolve] @ map Subscriber_onComplete (receivers c)
               @ map Subscription_cancel (senders c)
               @ [Socket_removeAllListeners, Socket_end]"
    unfolding B by (subst A) simp
  have i1: "inj (Subscriber_onComplete :: nat \<Rightarrow> 'a call)"
    by (simp add: inj_def)
  have i2: "inj (Subscription_cancel :: nat \<Rightarrow> 'a call)"
    by (simp add: inj_def)
  have n1: "Subscriber_onComplete r \<notin> set (map Subscription_cancel (senders c) :: 'a call list)" for r
    by auto
  have n2: "Subscription_cancel s \<notin> set (map Subscriber_onComplete (receivers c) :: 'a call list)" for s
    by auto
  have C: "\<forall>r \<in> set (receivers c).
             count_list (drop (length (log c)) (log ((close ^^ Suc n) c))) (Subscriber_onComplete r) = 1"
    unfolding L using assms(2)
    by (simp add: count_list_map_inj [OF i1] count_list_distinct count_list_notin [OF n1])
  have D: "\<forall>s \<in> set (senders c).
             count_list (drop (length (log c)) (log ((close ^^ Suc n) c))) (Subscription_cancel s) = 1"
    unfolding L using assms(3)
    by (simp add: count_list_map_inj [OF i2] count_list_distinct count_list_notin [OF n2])
  have E: "close (run env as (close c)) = run env as (close c)"
    by (intro close_inactive active_run active_close)
  from A B C D E show ?thesis by blast
qed

theorem close_idempotent_witness:
  "active example_connection \<and> distinct (receivers example_connection)
   \<and> distinct (senders example_connection)
   \<and> close (close (close example_connection)) = close example_connection
   \<and> close (run lp_env [Do_request 3, Do_sendOne [65] ] (close example_connection))
       = run lp_env [Do_request 3, Do_sendOne [65] ] (close example_connection)
   \<and> drop (length (log example_connection)) (log (close (close (close example_connection)))) =
       [Deferred_resolve, Subscriber_onComplete 1, Subscriber_onComplete 2,
        Subscription_cancel 7, Socket_removeAllListeners, Socket_end]
   \<and> count_list (drop (length (log example_connection))
        (log (close (close (close example_connection))))) (Subscriber_onComplete 2) = 1
   \<and> count_list (drop (length (log example_connection))
        (log (close (close (close example_connection))))) (Subscription_cancel 7) = 1"
proof -
  have h1: "active example_connection"
    by (simp add: example_connection_eq)
  have h2: "distinct (receivers example_connection)"
    by (simp add: example_connection_eq)
  have h3: "distinct (senders example_connection)"
    by (simp add: example_connection_eq)
  have r: "2 \<in> set (receivers example_connection)" "7 \<in> set (senders example_connection)"
    by (simp_all add: example_connection_eq)
  have f: "(close ^^ Suc 2) c = close (close (close c))" for c :: "(Buffer, unit, unit) TcpDuplexConnection"
    by (simp add: numeral_2_eq_2)
  note T = close_idempotent [OF h1 h2 h3, of 2 lp_env "[Do_request 3, Do_sendOne [65] ]",
      unfolded f]
  from T have a: "close (close (close example_connection)) = close example_connection"
    by blast
  from T have e: "close (run lp_env [Do_request 3, Do_sendOne [65] ] (close example_connection))
       = run lp_env [Do_request 3, Do_sendOne [65] ] (close example_connection)"
    by blast
  from T r have b: "count_list (drop (length (log example_connection))
        (log (close (close (close example_connection))))) (Subscriber_onComplete 2) = 1"
    by blast
  from T r have c: "count_list (drop (length (log example_connection))
        (log (close (close (close example_connection))))) (Subscription_cancel 7) = 1"
    by blast
  have d: "drop (length (log example_connection)) (log (close (close (close example_connection)))) =
       [Deferred_resolve, Subscriber_onComplete 1, Subscriber_onComplete 2,
        Subscription_cancel 7, Socket_removeAllListeners, Socket_end]"
    unfolding a by (subst close_active [OF h1]) (simp add: example_connection_eq)
  from h1 h2 h3 a b c d e show ?thesis
    by blast
qed

text \<open>
  C3, as amended. Once \<open>active\<close> is false it stays false whatever happens next, no
  socket event is handled any more, and no \<^verbatim>\<open>onNext\<close> is delivered to any receiver.
  The write path does not look at \<open>active\<close>: after the close, \<^verbatim>\<open>sendOne(frame)\<close>, and
  likewise a frame emitted by a producer given to \<^verbatim>\<open>send\<close>, is serialized and passed
  to \<^verbatim>\<open>socket.write\<close>; and the error path still calls \<^verbatim>\<open>onError\<close> on the receivers
  registered at that time, which are those that called \<^verbatim>\<open>request()\<close> after the close.
\<close>

theorem after_close:
  assumes "consistent c" and "\<not> active c"
  shows "\<not> active (run env as c)
         \<and> (\<forall>x \<in> set (new_calls c (run env as c)). \<not> is_onNext x)
         \<and> socket_emit env ev c = c
         \<and> new_calls c (handleError err c) = map (\<lambda>r. Subscriber_onError r err) (receivers c)
         \<and> send_signal env p (Sig_onNext frame) c = sendOne env frame c
         \<and> (serializeFrameWithLength env frame (encoders c) = Inr buf \<longrightarrow>
              new_calls c (sendOne env frame c) =
                Socket_write buf #
                  (case socket_write env (socket c) buf of
                     None \<Rightarrow> []
                   | Some err \<Rightarrow> map (\<lambda>r. Subscriber_onError r err) (receivers c)))"
proof -
  have "\<forall>x \<in> set (new_calls c (run env as c)). \<not> is_onNext x"
    using quiet_run [OF assms, of env as] by (simp add: quiet_def)
  then show ?thesis
    using assms
    by (simp add: active_run socket_emit_inactive new_calls_handleError sendOne_def
        new_calls_writeFrame_inactive)
qed

lemma lp_serialize_A:
  "serializeFrameWithLength lp_env [65] () = Inr [0, 0, 1, 65]"
  by (simp add: lp_env_def lp_serializeFrameWithLength_def writeUInt24BE_def)

theorem after_close_witness:
  "consistent closed_connection \<and> \<not> active closed_connection
   \<and> serializeFrameWithLength lp_env [65] (encoders closed_connection) = Inr [0, 0, 1, 65]
   \<and> \<not> active (run lp_env [Do_sendOne [65], Socket_emits (Emit_data [0, 0, 1, 65]), Do_close]
          closed_connection)
   \<and> socket_emit lp_env (Emit_data [0, 0, 1, 65]) closed_connection = closed_connection
   \<and> new_calls closed_connection (sendOne lp_env [65] closed_connection)
       = [Socket_write [0, 0, 1, 65] ]"
proof -
  have a: "\<not> active closed_connection"
    by (simp add: closed_connection_eq)
  have s: "serializeFrameWithLength lp_env [65] (encoders closed_connection) = Inr [0, 0, 1, 65]"
    by (simp add: lp_serialize_A)
  have w: "socket_write lp_env (socket closed_connection) [0, 0, 1, 65] = None"
    by (simp add: lp_env_def)
  note T = after_close [OF consistent_closed_connection a, of lp_env
      "[Do_sendOne [65], Socket_emits (Emit_data [0, 0, 1, 65]), Do_close]"
      "Emit_data [0, 0, 1, 65]" "Error ''reset''" 0 "[65]" "[0, 0, 1, 65]"]
  from T s w have "new_calls closed_connection (sendOne lp_env [65] closed_connection)
       = [Socket_write [0, 0, 1, 65] ]"
    by simp
  with T consistent_closed_connection a s show ?thesis
    by blast
qed

text \<open>
  The claim as stated fails: after \<^verbatim>\<open>close()\<close> has run, \<^verbatim>\<open>sendOne\<close> and a frame
  emitted by a producer both reach \<^verbatim>\<open>socket.write\<close>, and a receiver that registered
  after the close is told a producer's error.
\<close>

theorem write_after_close:
  "\<not> active (close example_connection)
   \<and> new_calls (close example_connection) (sendOne lp_env [65] (close example_connection))
       = [Socket_write [0, 0, 1, 65] ]
   \<and> new_calls (close example_connection)
        (send_signal lp_env 0 (Sig_onNext [65]) (close example_connection))
       = [Socket_write [0, 0, 1, 65] ]
   \<and> \<not> active closed_connection
   \<and> new_calls closed_connection
        (send_signal lp_env 0 (Sig_onError (Error ''producer failed'')) closed_connection)
       = [Subscriber_onError 1 (Error ''producer failed'')]"
proof -
  have a: "\<not> active (close example_connection)"
    by (rule active_close)
  have e: "encoders (close example_connection) = ()"
    by simp
  have w: "writeFrame lp_env [65] (close example_connection)
             = called [Socket_write [0, 0, 1, 65] ] (close example_connection)"
    by (rule writeFrame_written) (simp_all add: lp_serialize_A, simp add: lp_env_def)
  have b: "\<not> active closed_connection"
    by (simp add: closed_connection_eq)
  have "new_calls closed_connection
        (send_signal lp_env 0 (Sig_onError (Error ''producer failed'')) closed_connection)
       = [Subscriber_onError 1 (Error ''producer failed'')]"
    by (simp add: new_calls_handleError) (simp add: closed_connection_eq)
  with a b w show ?thesis
    by (simp add: sendOne_def)
qed

subsection \<open>connect\<close>

lemma connect_emit_detached:
  assumes "listeners (c_socket st) = []" and "\<forall>conn. future st \<noteq> Resolved conn"
  shows "connect_emit env ev st = st"
proof (cases "future st")
  case (Resolved conn)
  with assms(2) show ?thesis by simp
qed (simp_all add: connect_emit_def listeners_for_def drop_once_def assms(1))

lemma connect_emit_detached_all:
  assumes "listeners (c_socket st) = []" and "\<forall>conn. future st \<noteq> Resolved conn"
  shows "fold (connect_emit env) evs st = st"
  by (induction evs) (simp_all add: connect_emit_detached [OF assms])

lemma connect_emit_other:
  assumes "event_name_of ev \<noteq> Ev_error" and "event_name_of ev \<noteq> Ev_connect"
  shows "connect_emit env ev (connect opts encs) = connect opts encs"
  using assms
  by (simp add: connect_emit_def connect_def listeners_for_def drop_once_def socket_once_def)

lemma connect_emit_others:
  "\<forall>ev \<in> set pre. event_name_of ev \<noteq> Ev_error \<and> event_name_of ev \<noteq> Ev_connect \<Longrightarrow>
   fold (connect_emit env) pre (connect opts encs) = connect opts encs"
  by (induction pre) (simp_all add: connect_emit_other)

lemma connect_emit_error:
  "connect_emit env (Emit_error err) (connect opts encs) =
     (connect opts encs)
       \<lparr>c_socket := fresh_socket, future := Failed err,
        c_log := c_log (connect opts encs) @ [Socket_removeAllListeners, Future_onError err]\<rparr>"
  by (simp add: connect_emit_def connect_def listeners_for_def drop_once_def socket_once_def
      connect_onError_def removeAllListeners_def fresh_socket_def)

lemma connect_emit_connect:
  "connect_emit env Emit_connect (connect opts encs) =
     (connect opts encs)
       \<lparr>c_socket := \<lparr>listeners = connection_listeners, ended = False\<rparr>,
        future := Resolved (constructor opts encs fresh_socket),
        c_log := c_log (connect opts encs)
                   @ [Socket_removeAllListeners,
                      Socket_on Ev_close L_close, Socket_on Ev_data L_handleData,
                      Socket_on Ev_end L_handleEnd, Socket_on Ev_error L_handleError,
                      Future_onComplete]\<rparr>"
  by (simp add: connect_emit_def connect_def listeners_for_def drop_once_def socket_once_def
      connect_onComplete_def removeAllListeners_def fresh_socket_def Let_def
      constructor_def socket_on_def connection_listeners_def)

text \<open>
  C7. While the connect is pending, socket events other than \<^verbatim>\<open>error\<close> and
  \<^verbatim>\<open>connect\<close> change nothing. If the socket then reports an error, the listeners are
  detached and the future fails with that error; no later event has any effect, so no
  connection is ever built. If it reports the connect, the listeners are detached
  first, then the connection is built on the socket (attaching its own four
  listeners), and only then is the future resolved with it.
\<close>

theorem connect_outcomes:
  fixes env :: "('f, 'e) collaborators" and opts :: 'o
  assumes "\<forall>ev \<in> set pre. event_name_of ev \<noteq> Ev_error \<and> event_name_of ev \<noteq> Ev_connect"
  shows "fold (connect_emit env) (pre @ [Emit_error err] @ post) (connect opts encs) =
           (connect opts encs)
             \<lparr>c_socket := fresh_socket, future := Failed err,
              c_log := [Net_connect, Future_onSubscribe,
                        Socket_once Ev_error L_connect_onError,
                        Socket_once Ev_connect L_connect_onComplete,
                        Socket_removeAllListeners, Future_onError err]\<rparr>
         \<and> (\<forall>x \<in> set (c_log (fold (connect_emit env) (pre @ [Emit_error err] @ post)
                                 (connect opts encs))). \<not> builds_connection x)
         \<and> fold (connect_emit env) (pre @ [Emit_connect]) (connect opts encs) =
             (connect opts encs)
               \<lparr>c_socket := \<lparr>listeners = connection_listeners, ended = False\<rparr>,
                future := Resolved (constructor opts encs fresh_socket),
                c_log := [Net_connect, Future_onSubscribe,
                          Socket_once Ev_error L_connect_onError,
                          Socket_once Ev_connect L_connect_onComplete,
                          Socket_removeAllListeners,
                          Socket_on Ev_close L_close, Socket_on Ev_data L_handleData,
                          Socket_on Ev_end L_handleEnd, Socket_on Ev_error L_handleError,
                          Future_onComplete]\<rparr>
         \<and> socket (constructor opts encs fresh_socket :: ('f, 'e, 'o) TcpDuplexConnection)
             = \<lparr>listeners = connection_listeners, ended = False\<rparr>"
proof -
  let ?st = "connect opts encs :: ('f, 'e, 'o) connecting"
  let ?failed = "?st\<lparr>c_socket := fresh_socket, future := Failed err,
                     c_log := c_log ?st @ [Socket_removeAllListeners, Future_onError err]\<rparr>"
  have "fold (connect_emit env) post ?failed = ?failed"
    by (rule connect_emit_detached_all) (simp_all add: fresh_socket_def)
  then have f: "fold (connect_emit env) (pre @ [Emit_error err] @ post) ?st = ?failed"
    by (simp add: connect_emit_others [OF assms] connect_emit_error)
  have l: "c_log ?st = [Net_connect, Future_onSubscribe,
                        Socket_once Ev_error L_connect_onError,
                        Socket_once Ev_connect L_connect_onComplete]"
    by (simp add: connect_def)
  have s: "socket (constructor opts encs fresh_socket :: ('f, 'e, 'o) TcpDuplexConnection)
             = \<lparr>listeners = connection_listeners, ended = False\<rparr>"
    by (simp add: constructor_def socket_on_def fresh_socket_def connection_listeners_def)
  show ?thesis
    unfolding f
    by (simp add: l s connect_emit_others [OF assms] connect_emit_connect)
qed

theorem connect_outcomes_witness:
  "event_name_of (Emit_data [1]) \<noteq> Ev_error \<and> event_name_of (Emit_data [1]) \<noteq> Ev_connect
   \<and> event_name_of Emit_end \<noteq> Ev_error \<and> event_name_of Emit_end \<noteq> Ev_connect
   \<and> future (fold (connect_emit lp_env)
        ([Emit_data [1], Emit_end] @ [Emit_error (Error ''refused'')] @ [Emit_connect, Emit_data [2] ])
        (connect () ())) = Failed (Error ''refused'')
   \<and> listeners (c_socket (fold (connect_emit lp_env)
        ([Emit_data [1], Emit_end] @ [Emit_error (Error ''refused'')] @ [Emit_connect, Emit_data [2] ])
        (connect () ()))) = []
   \<and> future (fold (connect_emit lp_env) ([Emit_data [1], Emit_end] @ [Emit_connect]) (connect () ()))
       = Resolved (constructor () () fresh_socket)"
proof -
  have h: "\<forall>ev \<in> set [Emit_data [1], Emit_end].
      event_name_of ev \<noteq> Ev_error \<and> event_name_of ev \<noteq> Ev_connect"
    by simp
  note T = connect_outcomes [OF h, of lp_env "Error ''refused''" "[Emit_connect, Emit_data [2] ]"
      "()" "()"]
  from T have A: "fold (connect_emit lp_env)
        ([Emit_data [1], Emit_end] @ [Emit_error (Error ''refused'')] @ [Emit_connect, Emit_data [2] ])
        (connect () ()) =
           (connect () ())
             \<lparr>c_socket := fresh_socket, future := Failed (Error ''refused''),
              c_log := [Net_connect, Future_onSubscribe,
                        Socket_once Ev_error L_connect_onError,
                        Socket_once Ev_connect L_connect_onComplete,
                        Socket_removeAllListeners, Future_onError (Error ''refused'')]\<rparr>"
    by (rule conjunct1)
  from T have B: "fold (connect_emit lp_env) ([Emit_data [1], Emit_end] @ [Emit_connect]) (connect () ()) =
             (connect () ())
               \<lparr>c_socket := \<lparr>listeners = connection_listeners, ended = False\<rparr>,
                future := Resolved (constructor () () fresh_socket),
                c_log := [Net_connect, Future_onSubscribe,
                          Socket_once Ev_error L_connect_onError,
                          Socket_once Ev_connect L_connect_onComplete,
                          Socket_removeAllListeners,
                          Socket_on Ev_close L_close, Socket_on Ev_data L_handleData,
                          Socket_on Ev_end L_handleEnd, Socket_on Ev_error L_handleError,
                          Future_onComplete]\<rparr>"
    by blast
  have "future (fold (connect_emit lp_env)
        ([Emit_data [1], Emit_end] @ [Emit_error (Error ''refused'')] @ [Emit_connect, Emit_data [2] ])
        (connect () ())) = Failed (Error ''refused'')"
    and "listeners (c_socket (fold (connect_emit lp_env)
        ([Emit_data [1], Emit_end] @ [Emit_error (Error ''refused'')] @ [Emit_connect, Emit_data [2] ])
        (connect () ()))) = []"
    by (subst A, simp add: fresh_socket_def)+
  moreover have "future (fold (connect_emit lp_env) ([Emit_data [1], Emit_end] @ [Emit_connect]) (connect () ()))
       = Resolved (constructor () () fresh_socket)"
    by (subst B) simp
  ultimately show ?thesis
    by simp
qed

subsection \<open>send\<close>

text \<open>
  A producer that signals nothing from inside \<^verbatim>\<open>request\<close>: the subscription is asked
  for \<^verbatim>\<open>Number.MAX_SAFE_INTEGER\<close> and then registered; a frame signalled later is
  written; a completion signalled later takes the subscription out of the set.
\<close>

lemma send_onSubscribe_later:
  "send_onSubscribe env p sub [] c =
     c\<lparr>subscription := (subscription c)(p \<mapsto> sub),
       senders := set_add sub (senders c),
       log := log c @ [Subscription_request sub MAX_SAFE_INTEGER]\<rparr>"
  by (simp add: send_onSubscribe_def called_def)

lemma send_onComplete_later:
  "sub \<notin> set (senders (send_signal env p Sig_onComplete (send_onSubscribe env p sub [] c)))"
  by (simp add: send_onSubscribe_later send_onComplete_def set_set_delete)

lemma send_frames_in_order:
  assumes "\<forall>frame \<in> set frames. \<exists>buf. serializeFrameWithLength env frame (encoders c) = Inr buf"
      and "\<forall>sock buf. socket_write env sock buf = None"
  shows "fold (send_signal env p) (map Sig_onNext frames) c =
           called (map (\<lambda>frame. Socket_write (wire1 env (encoders c) frame)) frames) c"
  using assms(1)
proof (induction frames arbitrary: c)
  case Nil
  then show ?case by (simp add: called_def)
next
  case (Cons frame frames)
  from Cons.prems obtain buf where b: "serializeFrameWithLength env frame (encoders c) = Inr buf"
    by auto
  have w: "writeFrame env frame c = called [Socket_write buf] c"
    using b assms(2) by (simp add: writeFrame_written)
  have "fold (send_signal env p) (map Sig_onNext frames) (called [Socket_write buf] c) =
          called (map (\<lambda>frame. Socket_write (wire1 env (encoders c) frame)) frames)
            (called [Socket_write buf] c)"
    using Cons.prems Cons.IH [of "called [Socket_write buf] c"] by simp
  then show ?case
    by (simp add: w wire1_def b called_def)
qed

lemma lp_socket_write: "socket_write lp_env sock buf = None"
  by (simp add: lp_env_def)

text \<open>
  C8. The claim fails for a producer that signals its completion from inside
  \<^verbatim>\<open>request\<close>: \<^verbatim>\<open>onComplete\<close> runs before \<^verbatim>\<open>_senders.add\<close>, deletes nothing, and
  the subscription is registered after the producer has completed. Whatever is
  signalled inside \<^verbatim>\<open>request\<close>, the subscription is in the sender set when
  \<^verbatim>\<open>onSubscribe\<close> returns; here a producer of one frame completes at once, the frame
  is written, and the sender set still holds the subscription, which a later
  \<^verbatim>\<open>close()\<close> cancels.
\<close>

theorem send_completion_inside_request:
  "sub \<in> set (senders (send_onSubscribe env p sub sync c))
   \<and> send_onSubscribe lp_env 0 7 [Sig_onNext [65], Sig_onComplete]
        (send 0 (constructor () () fresh_socket))
       = (constructor () () fresh_socket)
           \<lparr>subscription := (\<lambda>p. None)(0 \<mapsto> 7), senders := [7],
            log := log (constructor () () fresh_socket :: (Buffer, unit, unit) TcpDuplexConnection)
                     @ [Subscription_request 7 MAX_SAFE_INTEGER, Socket_write [0, 0, 1, 65] ]\<rparr>
   \<and> new_calls (send_onSubscribe lp_env 0 7 [Sig_onNext [65], Sig_onComplete]
                  (send 0 (constructor () () fresh_socket)))
        (close (send_onSubscribe lp_env 0 7 [Sig_onNext [65], Sig_onComplete]
                  (send 0 (constructor () () fresh_socket))))
       = [Deferred_resolve, Subscription_cancel 7, Socket_removeAllListeners, Socket_end]
   \<and> senders (send_signal lp_env 0 Sig_onComplete
        (send_signal lp_env 0 (Sig_onNext [65])
          (send_onSubscribe lp_env 0 7 [] (send 0 (constructor () () fresh_socket))))) = []"
proof -
  let ?c0 = "constructor () () fresh_socket :: (Buffer, unit, unit) TcpDuplexConnection"
  have a: "sub \<in> set (senders (send_onSubscribe env p sub sync c))"
    by (simp add: send_onSubscribe_def Let_def set_set_add)
  have b: "send_onSubscribe lp_env 0 7 [Sig_onNext [65], Sig_onComplete] (send 0 ?c0)
       = ?c0\<lparr>subscription := (\<lambda>p. None)(0 \<mapsto> 7), senders := [7],
             log := log ?c0 @ [Subscription_request 7 MAX_SAFE_INTEGER, Socket_write [0, 0, 1, 65] ]\<rparr>"
    by (simp add: send_onSubscribe_def send_def Let_def writeFrame_def lp_serialize_A
        send_onComplete_def set_delete_def set_add_def called_def constructor_def lp_socket_write)
  have c: "new_calls (send_onSubscribe lp_env 0 7 [Sig_onNext [65], Sig_onComplete] (send 0 ?c0))
        (close (send_onSubscribe lp_env 0 7 [Sig_onNext [65], Sig_onComplete] (send 0 ?c0)))
       = [Deferred_resolve, Subscription_cancel 7, Socket_removeAllListeners, Socket_end]"
    unfolding b by (simp add: close_def Let_def called_def new_calls_def constructor_def)
  have d: "senders (send_signal lp_env 0 Sig_onComplete
        (send_signal lp_env 0 (Sig_onNext [65])
          (send_onSubscribe lp_env 0 7 [] (send 0 ?c0)))) = []"
    by (simp add: send_onSubscribe_later send_def writeFrame_def lp_serialize_A
        send_onComplete_def set_delete_def set_add_def called_def constructor_def Let_def lp_socket_write)
  from a b c d show ?thesis
    by blast
qed

subsection \<open>Reassembly under the codec's contract\<close>

lemma wire_Nil [simp]: "wire env encs [] = []"
  by (simp add: wire_def)

lemma wire_Cons [simp]: "wire env encs (frame # frames) = wire1 env encs frame @ wire env encs frames"
  by (simp add: wire_def)

lemma wire_append: "wire env encs (fs @ gs) = wire env encs fs @ wire env encs gs"
  by (simp add: wire_def)

lemma wire_take_drop:
  "wire env encs frames = wire env encs (take k frames) @ wire env encs (drop k frames)"
  using wire_append [of env encs "take k frames" "drop k frames"] by simp

lemma incomplete_Nil [simp]: "incomplete env encs []"
  by (simp add: incomplete_def)

lemma incomplete_prefix:
  assumes "incomplete env encs p" and "prefix bs p"
  shows "incomplete env encs bs"
proof (cases "p = []")
  case True
  with assms(2) show ?thesis by simp
next
  case False
  with assms(1) obtain frame where
    f: "serializable env encs frame" "strict_prefix p (wire1 env encs frame)"
    by (auto simp: incomplete_def)
  from assms(2) f(2) have "strict_prefix bs (wire1 env encs frame)"
    by (rule prefix_order.le_less_trans)
  with f(1) show ?thesis
    by (auto simp: incomplete_def)
qed

text \<open>
  A beginning of a stream of serialized frames is some of the frames, whole, followed
  by the beginning of the next.
\<close>

lemma prefix_wire_decompose:
  assumes "list_all (serializable env encs) frames" and "incomplete env encs p"
      and "prefix bs (wire env encs frames @ p)"
  shows "\<exists>k p'. k \<le> length frames \<and> bs = wire env encs (take k frames) @ p'
           \<and> incomplete env encs p'"
  using assms
proof (induction frames arbitrary: bs)
  case Nil
  then have "incomplete env encs bs"
    by (simp add: incomplete_prefix)
  then show ?case by simp
next
  case (Cons frame frames)
  from Cons.prems(3) have "prefix bs (wire1 env encs frame @ (wire env encs frames @ p))"
    by simp
  then have "prefix bs (wire1 env encs frame)
      \<or> (\<exists>us. bs = wire1 env encs frame @ us \<and> prefix us (wire env encs frames @ p))"
    by (simp only: prefix_append)
  moreover have "prefix [] (wire env encs frames @ p)"
    by simp
  ultimately consider (short) "strict_prefix bs (wire1 env encs frame)"
    | (long) us where "bs = wire1 env encs frame @ us" "prefix us (wire env encs frames @ p)"
    unfolding strict_prefix_def by (metis append_Nil2)
  then show ?case
  proof cases
    case short
    with Cons.prems(1) have "incomplete env encs bs"
      by (auto simp: incomplete_def)
    then have "0 \<le> length (frame # frames) \<and> bs = wire env encs (take 0 (frame # frames)) @ bs
        \<and> incomplete env encs bs"
      by simp
    then show ?thesis by blast
  next
    case long
    from Cons.prems(1) have "list_all (serializable env encs) frames"
      by simp
    from Cons.IH [OF this Cons.prems(2) long(2)] obtain k p' where
      k: "k \<le> length frames" "us = wire env encs (take k frames) @ p'" "incomplete env encs p'"
      by blast
    then have "Suc k \<le> length (frame # frames)
        \<and> bs = wire env encs (take (Suc k) (frame # frames)) @ p' \<and> incomplete env encs p'"
      using long(1) by simp
    then show ?thesis by blast
  qed
qed

lemma contract_extract:
  "codec_contract env encs \<Longrightarrow> list_all (serializable env encs) frames \<Longrightarrow>
   incomplete env encs p \<Longrightarrow>
   deserializeFrames env (wire env encs frames @ p) encs = Inr (frames, p)"
  by (simp add: codec_contract_def)

lemma read_chunks_stream:
  assumes "codec_contract env (encoders c)"
      and "list_all (serializable env (encoders c)) frames"
      and "incomplete env (encoders c) p"
      and "incomplete env (encoders c) (buffer c)"
      and "buffer c @ concat chunks = wire env (encoders c) frames @ p"
  shows "read_chunks env chunks c = Inr (frames, p)"
  using assms
proof (induction chunks arbitrary: c frames)
  case Nil
  have "deserializeFrames env (wire env (encoders c) [] @ buffer c) (encoders c) = Inr ([], buffer c)"
    using Nil.prems(1,4) by (intro contract_extract) simp_all
  moreover have "deserializeFrames env (wire env (encoders c) frames @ p) (encoders c) = Inr (frames, p)"
    using Nil.prems(1,2,3) by (intro contract_extract)
  ultimately show ?case
    using Nil.prems(5) by simp
next
  case (Cons chunk chunks)
  let ?e = "encoders c"
  have "prefix (buffer c @ chunk) (wire env ?e frames @ p)"
    using Cons.prems(5) by (metis append.assoc concat.simps(2) prefixI)
  from prefix_wire_decompose [OF Cons.prems(2,3) this] obtain k p' where
    k: "k \<le> length frames" "buffer c @ chunk = wire env ?e (take k frames) @ p'"
       "incomplete env ?e p'"
    by blast
  have tk: "list_all (serializable env ?e) (take k frames)"
    and dk: "list_all (serializable env ?e) (drop k frames)"
    using Cons.prems(2) by (auto simp: list_all_iff dest: in_set_takeD in_set_dropD)
  have d: "deserializeFrames env (buffer c @ chunk) ?e = Inr (take k frames, p')"
    unfolding k(2) using Cons.prems(1) tk k(3) by (rule contract_extract)
  have "wire env ?e (take k frames) @ p' @ concat chunks
          = wire env ?e (take k frames) @ wire env ?e (drop k frames) @ p"
    using Cons.prems(5) k(2) wire_take_drop [of env ?e frames k] by (metis append.assoc concat.simps(2))
  then have rest: "p' @ concat chunks = wire env ?e (drop k frames) @ p"
    by simp
  have "read_chunks env chunks (c\<lparr>buffer := p'\<rparr>) = Inr (drop k frames, p)"
    using Cons.prems(1,3) dk k(3) rest by (intro Cons.IH) simp_all
  with d show ?case
    by (simp add: readFrames_def)
qed


subsection \<open>The length-prefixed codec meets the contract\<close>

lemma split24: "(n::nat) div 65536 * 65536 + n div 256 mod 256 * 256 + n mod 256 = n"
proof -
  have a: "n div 65536 = n div 256 div 256"
    by (simp add: div_mult2_eq [symmetric])
  have b: "n div 256 div 256 * 256 + n div 256 mod 256 = n div 256"
    by (rule div_mult_mod_eq)
  have c: "n div 256 * 256 + n mod 256 = n"
    by (rule div_mult_mod_eq)
  have "n div 256 div 256 * 65536 + n div 256 mod 256 * 256 + n mod 256 =
          (n div 256 div 256 * 256 + n div 256 mod 256) * 256 + n mod 256"
    by (simp only: add_mult_distrib mult.assoc)
  also have "\<dots> = n div 256 * 256 + n mod 256"
    by (simp only: b)
  also have "\<dots> = n"
    by (rule c)
  finally show ?thesis
    by (simp only: a)
qed

lemma readUInt24BE_writeUInt24BE:
  assumes "n < 16777216"
  shows "readUInt24BE (of_nat (n div 65536)) (of_nat (n div 256)) (of_nat n) = n"
proof -
  have "unat (of_nat (n div 65536) :: 8 word) = n div 65536"
    using assms by (simp add: unat_of_nat)
  moreover have "unat (of_nat (n div 256) :: 8 word) = n div 256 mod 256"
    by (simp add: unat_of_nat)
  moreover have "unat (of_nat n :: 8 word) = n mod 256"
    by (simp add: unat_of_nat)
  ultimately show ?thesis
    unfolding readUInt24BE_def by (simp only: split24)
qed


lemma lp_serializable: "serializable lp_env encs frame \<longleftrightarrow> length frame < 16777216"
  by (simp add: serializable_def lp_env_def lp_serializeFrameWithLength_def)

lemma lp_wire1:
  "length frame < 16777216 \<Longrightarrow> wire1 lp_env encs frame = writeUInt24BE (length frame) @ frame"
  by (simp add: wire1_def lp_env_def lp_serializeFrameWithLength_def)

lemma lp_extract_frame:
  assumes "length frame < 16777216"
  shows "lp_extract (writeUInt24BE (length frame) @ frame @ rest) =
           (case lp_extract rest of (frames, remaining) \<Rightarrow> (frame # frames, remaining))"
  using readUInt24BE_writeUInt24BE [OF assms]
  by (simp add: writeUInt24BE_def Let_def)

lemma lp_extract_incomplete:
  assumes "length frame < 16777216"
      and "strict_prefix p (writeUInt24BE (length frame) @ frame)"
  shows "lp_extract p = ([], p)"
proof (cases p rule: lp_extract.cases)
  case (1 a b c rest)
  from assms(2) 1 have abc: "a = of_nat (length frame div 65536)" "b = of_nat (length frame div 256)"
    "c = of_nat (length frame)" and r: "strict_prefix rest frame"
    by (simp_all add: writeUInt24BE_def strict_prefix_def)
  from r have "length rest < length frame"
    by (rule prefix_length_less)
  then show ?thesis
    using readUInt24BE_writeUInt24BE [OF assms(1)] by (simp add: 1 abc Let_def)
qed simp_all

lemma lp_codec_contract: "codec_contract lp_env encs"
  unfolding codec_contract_def
proof (intro allI impI, elim conjE)
  fix frames :: "Buffer list" and p :: Buffer
  assume "list_all (serializable lp_env encs) frames" and p: "incomplete lp_env encs p"
  then have "lp_extract (wire lp_env encs frames @ p) = (frames, p)"
  proof (induction frames)
    case Nil
    show ?case
    proof (cases "p = []")
      case True
      then show ?thesis by simp
    next
      case False
      with p obtain frame where "length frame < 16777216"
        "strict_prefix p (writeUInt24BE (length frame) @ frame)"
        by (auto simp: incomplete_def lp_serializable lp_wire1)
      then show ?thesis
        by (simp add: lp_extract_incomplete)
    qed
  next
    case (Cons frame frames)
    then have l: "length frame < 16777216"
      by (simp add: lp_serializable)
    from Cons show ?case
      by (simp add: lp_wire1 [OF l] lp_extract_frame [OF l])
  qed
  then show "deserializeFrames lp_env (wire lp_env encs frames @ p) encs = Inr (frames, p)"
    by (simp add: lp_env_def lp_deserializeFrames_def)
qed

subsection \<open>Reassembly of a chunked stream\<close>

lemma buffer_handleData:
  "buffer (handleData env chunk c) =
     (case deserializeFrames env (buffer c @ chunk) (encoders c) of
        Inr (frames, remaining) \<Rightarrow> remaining
      | Inl err \<Rightarrow> buffer c)"
proof (cases "deserializeFrames env (buffer c @ chunk) (encoders c)")
  case (Inl err)
  have "buffer (handleError err c) = buffer c"
    by (cases "active c") (simp_all add: handleError_active handleError_inactive)
  with Inl show ?thesis
    by (simp add: handleData_throws)
next
  case (Inr res)
  then show ?thesis
    by (cases res) (simp add: handleData_returns)
qed

text \<open>
  C1. Take any frames that serialize, and split the bytes of their serializations into
  chunks in any way at all. On a connection with an empty buffer, handling the chunks
  one after the other throws nowhere, hands every registered receiver exactly those
  frames, in their order, and leaves the buffer empty. Each chunk is appended to the
  buffered remainder, extraction is applied once to the result, the remainder it returns
  becomes the buffer, and the frames it returns are delivered in the order returned.
\<close>

theorem chunked_stream_delivers_frames:
  fixes c :: "('f, 'e, 'o) TcpDuplexConnection"
  assumes "codec_contract env (encoders c)"
      and "list_all (serializable env (encoders c)) frames"
      and "buffer c = []"
      and "concat chunks = wire env (encoders c) frames"
      and "distinct (receivers c)"
  shows "read_chunks env chunks c = Inr (frames, [])
         \<and> fold (handleData env) chunks c = c\<lparr>log := log c @ deliver (receivers c) frames\<rparr>
         \<and> (\<forall>r \<in> set (receivers c).
              calls_to r (new_calls c (fold (handleData env) chunks c))
                = map (Subscriber_onNext r) frames)
         \<and> (\<forall>chunk (c' :: ('f, 'e, 'o) TcpDuplexConnection) fs remaining.
              deserializeFrames env (buffer c' @ chunk) (encoders c') = Inr (fs, remaining) \<longrightarrow>
              handleData env chunk c' =
                c'\<lparr>buffer := remaining, log := log c' @ deliver (receivers c') fs\<rparr>)"
proof -
  have r: "read_chunks env chunks c = Inr (frames, [])"
    using assms(1,2) by (rule read_chunks_stream) (simp_all add: assms(3,4))
  have f: "fold (handleData env) chunks c = c\<lparr>log := log c @ deliver (receivers c) frames\<rparr>"
    using handle_chunks_returns [OF r] assms(3) by simp
  have A: "calls_to r (new_calls c (fold (handleData env) chunks c)) = map (Subscriber_onNext r) frames"
    if "r \<in> set (receivers c)" for r
    unfolding f using that assms(5) by (simp add: new_calls_def calls_to_deliver)
  have B: "handleData env chunk c' =
      c'\<lparr>buffer := remaining, log := log c' @ deliver (receivers c') fs\<rparr>"
    if "deserializeFrames env (buffer c' @ chunk) (encoders c') = Inr (fs, remaining)"
    for chunk fs remaining and c' :: "('f, 'e, 'o) TcpDuplexConnection"
    using that by (rule handleData_returns)
  show ?thesis
    by (intro conjI ballI allI impI; (rule r f | erule A B))
qed

theorem chunked_stream_delivers_frames_witness:
  "codec_contract lp_env (encoders example_connection)
   \<and> list_all (serializable lp_env (encoders example_connection)) [ [65], [66, 67] ]
   \<and> buffer example_connection = []
   \<and> concat [ [0], [0], [1], [65], [0], [0], [2], [66], [67] ]
       = wire lp_env (encoders example_connection) [ [65], [66, 67] ]
   \<and> distinct (receivers example_connection)
   \<and> receivers example_connection = [1, 2]
   \<and> read_chunks lp_env [ [0], [0], [1], [65], [0], [0], [2], [66], [67] ] example_connection
       = Inr ([ [65], [66, 67] ], [])
   \<and> fold (handleData lp_env) [ [0], [0], [1], [65], [0], [0], [2], [66], [67] ] example_connection
       = example_connection
           \<lparr>log := log example_connection
                   @ [Subscriber_onNext 1 [65], Subscriber_onNext 2 [65],
                      Subscriber_onNext 1 [66, 67], Subscriber_onNext 2 [66, 67] ]\<rparr>
   \<and> calls_to 2 (new_calls example_connection
        (fold (handleData lp_env) [ [0], [0], [1], [65], [0], [0], [2], [66], [67] ]
          example_connection))
       = [Subscriber_onNext 2 [65], Subscriber_onNext 2 [66, 67] ]"
proof -
  have h1: "codec_contract lp_env (encoders example_connection)"
    by (rule lp_codec_contract)
  have h2: "list_all (serializable lp_env (encoders example_connection)) [ [65], [66, 67] ]"
    by (simp add: lp_serializable)
  have h3: "buffer example_connection = []"
    by (simp add: example_connection_eq)
  have h4: "concat [ [0], [0], [1], [65], [0], [0], [2], [66], [67] ]
              = wire lp_env (encoders example_connection) [ [65], [66, 67] ]"
    by (simp add: lp_wire1 writeUInt24BE_def)
  have h5: "distinct (receivers example_connection)"
    and r: "receivers example_connection = [1, 2]"
    by (simp_all add: example_connection_eq)
  note T = chunked_stream_delivers_frames [OF h1 h2 h3 h4 h5]
  from T have a: "read_chunks lp_env [ [0], [0], [1], [65], [0], [0], [2], [66], [67] ]
      example_connection = Inr ([ [65], [66, 67] ], [])"
    by (rule conjunct1)
  from T have b: "fold (handleData lp_env) [ [0], [0], [1], [65], [0], [0], [2], [66], [67] ]
      example_connection
       = example_connection
           \<lparr>log := log example_connection @ deliver (receivers example_connection) [ [65], [66, 67] ]\<rparr>"
    by (rule conjunct1 [OF conjunct2])
  from T have c: "\<forall>r \<in> set (receivers example_connection).
      calls_to r (new_calls example_connection
        (fold (handleData lp_env) [ [0], [0], [1], [65], [0], [0], [2], [66], [67] ]
          example_connection))
       = map (Subscriber_onNext r) [ [65], [66, 67] ]"
    by (rule conjunct1 [OF conjunct2 [OF conjunct2] ])
  have d: "deliver (receivers example_connection) [ [65], [66, 67] ]
       = [Subscriber_onNext 1 [65], Subscriber_onNext 2 [65],
          Subscriber_onNext 1 [66, 67], Subscriber_onNext 2 [66, 67] ]"
    by (simp add: r)
  have e: "2 \<in> set (receivers example_connection)"
    by (simp add: r)
  from c e have c': "calls_to 2 (new_calls example_connection
        (fold (handleData lp_env) [ [0], [0], [1], [65], [0], [0], [2], [66], [67] ]
          example_connection))
       = [Subscriber_onNext 2 [65], Subscriber_onNext 2 [66, 67] ]"
    by simp
  from h1 h2 h3 h4 h5 r a b [unfolded d] c' show ?thesis
    by (intro conjI)
qed

text \<open>
  C6. After every chunk of a stream of serialized frames, however the stream was split,
  the buffer is exactly the unconsumed tail: the bytes received so far are the
  serializations of the frames delivered so far followed by the buffer, and the buffer
  is nothing or the beginning of one frame that has not arrived whole. In every step
  the buffer becomes the remainder that the extraction returned, and is left as it was
  when the extraction throws.
\<close>

theorem buffer_is_unconsumed_tail:
  fixes c c' :: "('f, 'e, 'o) TcpDuplexConnection"
  assumes "codec_contract env (encoders c)"
      and "list_all (serializable env (encoders c)) frames"
      and "buffer c = []"
      and "prefix (concat chunks) (wire env (encoders c) frames)"
  shows "(\<exists>k. k \<le> length frames
            \<and> read_chunks env chunks c
                = Inr (take k frames, buffer (fold (handleData env) chunks c))
            \<and> new_calls c (fold (handleData env) chunks c)
                = deliver (receivers c) (take k frames)
            \<and> concat chunks
                = wire env (encoders c) (take k frames) @ buffer (fold (handleData env) chunks c)
            \<and> incomplete env (encoders c) (buffer (fold (handleData env) chunks c)))
         \<and> buffer (handleData env chunk c') =
             (case deserializeFrames env (buffer c' @ chunk) (encoders c') of
                Inr (fs, remaining) \<Rightarrow> remaining
              | Inl err \<Rightarrow> buffer c')"
proof -
  let ?e = "encoders c"
  have "prefix (concat chunks) (wire env ?e frames @ [])"
    using assms(4) by simp
  from prefix_wire_decompose [OF assms(2) incomplete_Nil this] obtain k p where
    k: "k \<le> length frames" "concat chunks = wire env ?e (take k frames) @ p" "incomplete env ?e p"
    by blast
  have tk: "list_all (serializable env ?e) (take k frames)"
    using assms(2) by (auto simp: list_all_iff dest: in_set_takeD)
  have r: "read_chunks env chunks c = Inr (take k frames, p)"
    using assms(1) tk k(3) by (rule read_chunks_stream) (simp_all add: assms(3) k(2))
  have f: "fold (handleData env) chunks c =
             c\<lparr>buffer := p, log := log c @ deliver (receivers c) (take k frames)\<rparr>"
    by (rule handle_chunks_returns [OF r])
  have "k \<le> length frames
      \<and> read_chunks env chunks c = Inr (take k frames, buffer (fold (handleData env) chunks c))
      \<and> new_calls c (fold (handleData env) chunks c) = deliver (receivers c) (take k frames)
      \<and> concat chunks = wire env ?e (take k frames) @ buffer (fold (handleData env) chunks c)
      \<and> incomplete env ?e (buffer (fold (handleData env) chunks c))"
    unfolding f using k r by (simp add: new_calls_def)
  then show ?thesis
    using buffer_handleData [of env chunk c'] by blast
qed


theorem buffer_is_unconsumed_tail_witness:
  "codec_contract lp_env (encoders example_connection)
   \<and> list_all (serializable lp_env (encoders example_connection)) [ [65], [66, 67] ]
   \<and> buffer example_connection = []
   \<and> prefix (concat [ [0, 0, 1, 65, 0], [0, 2, 66] ])
        (wire lp_env (encoders example_connection) [ [65], [66, 67] ])
   \<and> buffer (fold (handleData lp_env) [ [0, 0, 1, 65, 0], [0, 2, 66] ] example_connection)
       = [0, 0, 2, 66]
   \<and> (\<exists>k. k \<le> length [ [65 :: 8 word], [66, 67] ]
          \<and> read_chunks lp_env [ [0, 0, 1, 65, 0], [0, 2, 66] ] example_connection
              = Inr (take k [ [65], [66, 67] ], [0, 0, 2, 66])
          \<and> concat [ [0, 0, 1, 65, 0], [0, 2, 66] ]
              = wire lp_env (encoders example_connection) (take k [ [65], [66, 67] ])
                  @ [0, 0, 2, 66]
          \<and> incomplete lp_env (encoders example_connection) [0, 0, 2, 66])"
proof -
  have h1: "codec_contract lp_env (encoders example_connection)"
    by (rule lp_codec_contract)
  have h2: "list_all (serializable lp_env (encoders example_connection)) [ [65], [66, 67] ]"
    by (simp add: lp_serializable)
  have h3: "buffer example_connection = []"
    by (simp add: example_connection_eq)
  have h4: "prefix (concat [ [0, 0, 1, 65, 0], [0, 2, 66] ])
              (wire lp_env (encoders example_connection) [ [65], [66, 67] ])"
    by (simp add: lp_wire1 writeUInt24BE_def)
  have e: "buffer (fold (handleData lp_env) [ [0, 0, 1, 65, 0], [0, 2, 66] ] example_connection)
             = [0, 0, 2, 66]"
    by (simp add: buffer_handleData h3)
       (simp add: lp_env_def lp_deserializeFrames_def readUInt24BE_def)
  from buffer_is_unconsumed_tail [OF h1 h2 h3 h4, of "[]" example_connection]
  obtain k where "k \<le> length [ [65 :: 8 word], [66, 67] ]"
    "read_chunks lp_env [ [0, 0, 1, 65, 0], [0, 2, 66] ] example_connection
       = Inr (take k [ [65], [66, 67] ], [0, 0, 2, 66])"
    "concat [ [0, 0, 1, 65, 0], [0, 2, 66] ]
       = wire lp_env (encoders example_connection) (take k [ [65], [66, 67] ]) @ [0, 0, 2, 66]"
    "incomplete lp_env (encoders example_connection) [0, 0, 2, 66]"
    unfolding e by blast
  with h1 h2 h3 h4 e show ?thesis
    by blast
qed

end
